theory Spec2Isabelle
  imports Main
begin

section \<open>Strings: file names, extensions, decimal numerals\<close>

text \<open>
  This theory embeds the routing engine of \<^verbatim>\<open>manager.py\<close>: the event handler
  \<^verbatim>\<open>OrganizerHandler\<close> with \<^verbatim>\<open>on_modified\<close>, \<^verbatim>\<open>process_file\<close>, \<^verbatim>\<open>move_file\<close>
  and \<^verbatim>\<open>make_unique\<close>, and the global \<^verbatim>\<open>log_buffer\<close>. The user interface
  (\<^verbatim>\<open>main\<close>) and the configuration file are outside it; a configuration is a value.

  What the program takes from Python and its library is modelled here as far as the
  program uses it:
  \<^item> a string is a list of 8-bit characters, read as code points below 256 (Latin-1);
    \<^verbatim>\<open>str.lower\<close> is exact on these;
  \<^item> \<^verbatim>\<open>Path(name).suffix\<close> and \<^verbatim>\<open>.stem\<close> are those of \<^verbatim>\<open>pathlib.PurePosixPath\<close> in
    Python 3.4 to 3.13 (a leading dot and a trailing dot start no suffix);
  \<^item> a path of the file system is the list of its components from the root, in
    canonical form (no \<^verbatim>\<open>..\<close>, no symbolic links), so that two paths name the same object
    exactly when they are equal; a configured directory is such a path;
  \<^item> the file system is an association list from paths to nodes; its order is the
    order in which a directory is enumerated;
  \<^item> every call into the file system may fail: the environment is a schedule
    \<open>faults\<close> that says, for the n-th call, whether it raises and what; a move may
    fail part of the way and leave an incomplete copy at its destination.
\<close>

text \<open>
  A path: its components from the root. The root directory is the empty list.
\<close>

type_synonym path = "string list"

text \<open>
  \<^verbatim>\<open>s.split(c)\<close> for a single character \<open>c\<close>.
\<close>

fun split_on :: "char \<Rightarrow> string \<Rightarrow> string list" where
  "split_on c [] = [[]]"
| "split_on c (x # xs) =
     (if x = c then [] # split_on c xs
      else (case split_on c xs of [] \<Rightarrow> [[x]] | p # ps \<Rightarrow> (x # p) # ps))"

text \<open>
  \<^verbatim>\<open>PurePosixPath(p).name\<close>: the last component of \<open>p\<close>, where empty components and
  \<^verbatim>\<open>.\<close> components are dropped when the path is parsed; empty when nothing is left.
  For a string without \<^verbatim>\<open>/\<close> this is the string itself, unless it is empty or \<^verbatim>\<open>.\<close>.
\<close>

definition path_name :: "string \<Rightarrow> string" where
  "path_name p =
     (case rev (filter (\<lambda>x. x \<noteq> [] \<and> x \<noteq> ''.'') (split_on (CHR ''/'') p)) of
        [] \<Rightarrow> []
      | x # _ \<Rightarrow> x)"

text \<open>
  \<^verbatim>\<open>s.rfind(c)\<close>: the index of the last occurrence of \<open>c\<close>, or \<open>-1\<close>.
\<close>

definition rfind :: "string \<Rightarrow> char \<Rightarrow> int" where
  "rfind s c =
     (if c \<in> set s
      then int (length s) - 1 - int (length (takeWhile (\<lambda>x. x \<noteq> c) (rev s)))
      else - 1)"

text \<open>
  pathlib's properties, as the library defines them:
  \<^verbatim>\<open>
    name = self.name
    i = name.rfind('.')
    if 0 < i < len(name) - 1:
        return name[i:]        # suffix;  stem: name[:i]
    else:
        return ''              # suffix;  stem: name
  \<close>
\<close>

definition suffix :: "string \<Rightarrow> string" where
  "suffix p =
     (let name = path_name p; i = rfind name (CHR ''.'')
      in if 0 < i \<and> i < int (length name) - 1 then drop (nat i) name else [])"

definition stem :: "string \<Rightarrow> string" where
  "stem p =
     (let name = path_name p; i = rfind name (CHR ''.'')
      in if 0 < i \<and> i < int (length name) - 1 then take (nat i) name else name)"

text \<open>
  \<^verbatim>\<open>str.lower()\<close> on code points below 256: the letters \<^verbatim>\<open>A\<close> to \<^verbatim>\<open>Z\<close> (65 to 90)
  and the Latin-1 capitals (192 to 222, without the multiplication sign 215) move up by
  32; every other character stays.
\<close>

definition is_upper :: "char \<Rightarrow> bool" where
  "is_upper c =
     (let n = (of_char c :: nat)
      in (65 \<le> n \<and> n \<le> 90) \<or> (192 \<le> n \<and> n \<le> 222 \<and> n \<noteq> 215))"

definition lower_char :: "char \<Rightarrow> char" where
  "lower_char c = (if is_upper c then char_of ((of_char c :: nat) + 32) else c)"

definition lower :: "string \<Rightarrow> string" where
  "lower s = map lower_char s"

text \<open>
  \<^verbatim>\<open>str(n)\<close> for a non-negative integer, as the f-string \<^verbatim>\<open>f"{counter}"\<close> formats it:
  decimal digits, most significant first, no leading zero.
\<close>

definition digit_char :: "nat \<Rightarrow> char" where
  "digit_char d = char_of (48 + d)"

fun str_nat :: "nat \<Rightarrow> string" where
  "str_nat n = (if n < 10 then [digit_char n] else str_nat (n div 10) @ [digit_char (n mod 10)])"

declare str_nat.simps [simp del]

section \<open>The file system and its failures\<close>

text \<open>
  A node is a regular file with its content, or a directory. An exception is one of
  the \<^verbatim>\<open>OSError\<close> classes the library tells apart, with the path it names (its
  \<^verbatim>\<open>filename\<close>), or any other exception with the text that \<^verbatim>\<open>str(e)\<close> gives. All of
  them derive from \<^verbatim>\<open>Exception\<close>. A fault of the environment raises an exception; a move
  may before that have written the given content as an incomplete copy (what
  \<^verbatim>\<open>shutil.move\<close> leaves when copying to another file system breaks off).
\<close>

datatype node = File string | Dir

datatype exn =
    FileNotFoundError path
  | FileExistsError path
  | NotADirectoryError path
  | OSError string

datatype fault = Fails exn | FailsPartway exn string

fun raised :: "fault \<Rightarrow> exn" where
  "raised (Fails e) = e"
| "raised (FailsPartway e c) = e"

section \<open>The Activity Log\<close>

text \<open>
  The two strings the Mover appends, kept as data rather than formatted (the first
  contains the arrow U+2192, which is no 8-bit character):
  \<open>Moved name dest_dir\<close> stands for \<^verbatim>\<open>f"Moved: {name} (arrow) {dest_dir}"\<close> and
  \<open>ErrorMoving name e\<close> for \<^verbatim>\<open>f"Error moving {name}: {str(e)}"\<close>, where the text
  \<^verbatim>\<open>str(e)\<close> is determined by the exception \<open>e\<close>.
\<close>

datatype log_entry = Moved string path | ErrorMoving string exn

text \<open>
  \<^verbatim>\<open>log_buffer = deque(maxlen=50)\<close>. Appending to a full deque drops one item from the
  other end.
\<close>

definition maxlen :: nat where
  "maxlen = 50"

definition log_append :: "'a \<Rightarrow> 'a list \<Rightarrow> 'a list" where
  "log_append x buf = (let buf' = buf @ [x] in if length buf' > maxlen then tl buf' else buf')"

text \<open>
  The state the program runs in: the files, the failure schedule of the environment,
  the number of file system calls made so far, and the program's global \<^verbatim>\<open>log_buffer\<close>.
  A call that the schedule lets fail raises the scheduled exception; only a move that
  fails part of the way changes a file.
\<close>

type_synonym filesystem = "(path \<times> node) list"

record world =
  files :: filesystem
  faults :: "nat \<Rightarrow> fault option"
  clock :: nat
  log_buffer :: "log_entry list"

definition node_at :: "filesystem \<Rightarrow> path \<Rightarrow> node option" where
  "node_at fs p = (if p = [] then Some Dir else map_of fs p)"

definition is_file_node :: "node option \<Rightarrow> bool" where
  "is_file_node n = (case n of Some (File _) \<Rightarrow> True | _ \<Rightarrow> False)"

definition tick :: "world \<Rightarrow> world" where
  "tick w = w\<lparr>clock := Suc (clock w)\<rparr>"

text \<open>
  \<^verbatim>\<open>dest_dir.mkdir(exist_ok=True, parents=True)\<close>, following pathlib:
  \<^verbatim>\<open>
    try:
        os.mkdir(self, mode)
    except FileNotFoundError:
        if not parents or self.parent == self:
            raise
        self.parent.mkdir(parents=True, exist_ok=True)
        self.mkdir(mode, parents=False, exist_ok=exist_ok)
    except OSError:
        if not exist_ok or not self.is_dir():
            raise
  \<close>
  \<open>os_mkdir\<close> is the system call, \<open>mkdir_exist_ok\<close> the inner call with
  \<^verbatim>\<open>parents=False\<close>, \<open>mkdir_parents\<close> the outer one.
\<close>

definition os_mkdir :: "path \<Rightarrow> filesystem \<Rightarrow> exn + filesystem" where
  "os_mkdir d fs =
     (if node_at fs d \<noteq> None then Inl (FileExistsError d)
      else (case node_at fs (butlast d) of
              None \<Rightarrow> Inl (FileNotFoundError d)
            | Some (File _) \<Rightarrow> Inl (NotADirectoryError d)
            | Some Dir \<Rightarrow> Inr (fs @ [(d, Dir)])))"

definition mkdir_exist_ok :: "path \<Rightarrow> filesystem \<Rightarrow> (exn + unit) \<times> filesystem" where
  "mkdir_exist_ok d fs =
     (case os_mkdir d fs of
        Inr fs' \<Rightarrow> (Inr (), fs')
      | Inl (FileNotFoundError p) \<Rightarrow> (Inl (FileNotFoundError p), fs)
      | Inl e \<Rightarrow> (if node_at fs d = Some Dir then (Inr (), fs) else (Inl e, fs)))"

fun mkdir_parents :: "path \<Rightarrow> filesystem \<Rightarrow> (exn + unit) \<times> filesystem" where
  "mkdir_parents d fs =
     (case os_mkdir d fs of
        Inr fs' \<Rightarrow> (Inr (), fs')
      | Inl (FileNotFoundError p) \<Rightarrow>
          (if d = [] then (Inl (FileNotFoundError p), fs)
           else (case mkdir_parents (butlast d) fs of
                   (Inl e, fs1) \<Rightarrow> (Inl e, fs1)
                 | (Inr _, fs1) \<Rightarrow> mkdir_exist_ok d fs1))
      | Inl e \<Rightarrow> (if node_at fs d = Some Dir then (Inr (), fs) else (Inl e, fs)))"

declare mkdir_parents.simps [simp del]

definition Path_mkdir :: "path \<Rightarrow> world \<Rightarrow> (exn + unit) \<times> world" where
  "Path_mkdir d w =
     (case faults w (clock w) of
        Some f \<Rightarrow> (Inl (raised f), tick w)
      | None \<Rightarrow> (case mkdir_parents d (files w) of (r, fs') \<Rightarrow> (r, tick (w\<lparr>files := fs'\<rparr>))))"

text \<open>
  \<^verbatim>\<open>path.exists()\<close>.
\<close>

definition Path_exists :: "path \<Rightarrow> world \<Rightarrow> (exn + bool) \<times> world" where
  "Path_exists p w =
     (case faults w (clock w) of
        Some f \<Rightarrow> (Inl (raised f), tick w)
      | None \<Rightarrow> (Inr (node_at (files w) p \<noteq> None), tick w))"

text \<open>
  \<^verbatim>\<open>shutil.move(src, dst)\<close>: into \<open>dst\<close> when that is an existing directory (an error
  when the name is taken there), else a rename of \<open>src\<close> to \<open>dst\<close>. Renaming a regular
  file replaces a regular file at \<open>dst\<close>; renaming a directory takes its subtree along.
  The program only ever moves a regular file to a path it has just found free.
\<close>

definition is_prefix :: "path \<Rightarrow> path \<Rightarrow> bool" where
  "is_prefix p q = (take (length p) q = p)"

definition rename_tree :: "path \<Rightarrow> path \<Rightarrow> filesystem \<Rightarrow> filesystem" where
  "rename_tree src dst fs =
     map (\<lambda>(p, n). if is_prefix src p then (dst @ drop (length src) p, n) else (p, n))
       (filter (\<lambda>(p, n). \<not> is_prefix dst p) fs)"

definition os_rename :: "path \<Rightarrow> path \<Rightarrow> filesystem \<Rightarrow> exn + filesystem" where
  "os_rename src dst fs =
     (case node_at fs src of
        None \<Rightarrow> Inl (FileNotFoundError src)
      | Some (File c) \<Rightarrow>
          (case node_at fs (butlast dst) of
             None \<Rightarrow> Inl (FileNotFoundError dst)
           | Some (File _) \<Rightarrow> Inl (NotADirectoryError dst)
           | Some Dir \<Rightarrow>
               (if node_at fs dst = Some Dir then Inl (OSError ''[Errno 21] Is a directory'')
                else Inr (filter (\<lambda>(p, n). p \<noteq> src \<and> p \<noteq> dst) fs @ [(dst, File c)])))
      | Some Dir \<Rightarrow>
          (if src = [] \<or> is_prefix src dst then Inl (OSError ''[Errno 22] Invalid argument'')
           else (case node_at fs (butlast dst) of
                   None \<Rightarrow> Inl (FileNotFoundError dst)
                 | Some (File _) \<Rightarrow> Inl (NotADirectoryError dst)
                 | Some Dir \<Rightarrow>
                     (if node_at fs dst \<noteq> None then Inl (OSError ''[Errno 39] Directory not empty'')
                      else Inr (rename_tree src dst fs)))))"

definition shutil_move :: "path \<Rightarrow> path \<Rightarrow> filesystem \<Rightarrow> exn + filesystem" where
  "shutil_move src dst fs =
     (if node_at fs dst = Some Dir \<and> node_at fs src = Some Dir \<and> src = dst then Inr fs
      else if node_at fs dst = Some Dir \<and> node_at fs (dst @ [last src]) \<noteq> None
      then Inl (OSError ''Destination path already exists'')
      else os_rename src (if node_at fs dst = Some Dir then dst @ [last src] else dst) fs)"

definition partial_copy :: "path \<Rightarrow> path \<Rightarrow> string \<Rightarrow> filesystem \<Rightarrow> filesystem" where
  "partial_copy src dst c fs =
     (let real_dst = (if node_at fs dst = Some Dir then dst @ [last src] else dst)
      in if is_file_node (node_at fs src) \<and> node_at fs (butlast real_dst) = Some Dir
            \<and> node_at fs real_dst \<noteq> Some Dir
         then filter (\<lambda>(p, n). p \<noteq> real_dst) fs @ [(real_dst, File c)]
         else fs)"

definition move :: "path \<Rightarrow> path \<Rightarrow> world \<Rightarrow> (exn + unit) \<times> world" where
  "move src dst w =
     (case faults w (clock w) of
        Some (Fails e) \<Rightarrow> (Inl e, tick w)
      | Some (FailsPartway e c) \<Rightarrow> (Inl e, tick (w\<lparr>files := partial_copy src dst c (files w)\<rparr>))
      | None \<Rightarrow> (case shutil_move src dst (files w) of
                   Inl e \<Rightarrow> (Inl e, tick w)
                 | Inr fs' \<Rightarrow> (Inr (), tick (w\<lparr>files := fs'\<rparr>))))"

text \<open>
  \<^verbatim>\<open>os.scandir(path)\<close>: the entries of a directory, each with its \<^verbatim>\<open>name\<close>, its
  \<^verbatim>\<open>path\<close> and what \<^verbatim>\<open>is_file()\<close> answers when it answers. The entries are those
  present when the directory is opened, in the order of the association list.
  \<open>is_file\<close> is the call the loop makes for every entry; like reading the next entry
  it goes to the file system and may raise.
\<close>

record dir_entry =
  entry_name :: string
  entry_path :: path
  entry_is_file :: bool

definition child_names :: "path \<Rightarrow> filesystem \<Rightarrow> string list" where
  "child_names d fs = remdups (map (last \<circ> fst) (filter (\<lambda>(p, n). p \<noteq> [] \<and> butlast p = d) fs))"

definition make_entry :: "path \<Rightarrow> filesystem \<Rightarrow> string \<Rightarrow> dir_entry" where
  "make_entry d fs nm =
     \<lparr>entry_name = nm, entry_path = d @ [nm], entry_is_file = is_file_node (node_at fs (d @ [nm]))\<rparr>"

definition scandir :: "path \<Rightarrow> world \<Rightarrow> (exn + dir_entry list) \<times> world" where
  "scandir d w =
     (case faults w (clock w) of
        Some f \<Rightarrow> (Inl (raised f), tick w)
      | None \<Rightarrow>
          (case node_at (files w) d of
             None \<Rightarrow> (Inl (FileNotFoundError d), tick w)
           | Some (File _) \<Rightarrow> (Inl (NotADirectoryError d), tick w)
           | Some Dir \<Rightarrow> (Inr (map (make_entry d (files w)) (child_names d (files w))), tick w)))"

definition is_file :: "dir_entry \<Rightarrow> world \<Rightarrow> (exn + bool) \<times> world" where
  "is_file entry w =
     (case faults w (clock w) of
        Some f \<Rightarrow> (Inl (raised f), tick w)
      | None \<Rightarrow> (Inr (entry_is_file entry), tick w))"

section \<open>The collision resolver\<close>

text \<open>
  The loop of \<^verbatim>\<open>make_unique\<close> has no bound on its counter. It ends because the
  candidate names for different counters differ and only finitely many paths exist:
  the number of existing candidates from the current counter on gets smaller with every
  round. The lemmas up to the definition of the loop establish this measure.
\<close>

lemma digit_char_inj: "a < 10 \<Longrightarrow> b < 10 \<Longrightarrow> digit_char a = digit_char b \<Longrightarrow> a = b"
proof -
  assume a: "a < 10" and b: "b < 10" and eq: "digit_char a = digit_char b"
  from eq have "(of_char (digit_char a) :: nat) = of_char (digit_char b)" by simp
  with a b show "a = b" by (simp add: digit_char_def)
qed

lemma str_nat_nonempty: "str_nat n \<noteq> []"
  by (subst str_nat.simps) simp

lemma str_nat_inj: "str_nat m = str_nat n \<Longrightarrow> m = n"
proof (induction m arbitrary: n rule: str_nat.induct)
  case (1 m)
  show ?case
  proof (cases "m < 10")
    case msmall: True
    show ?thesis
    proof (cases "n < 10")
      case True
      with msmall "1.prems" show ?thesis
        by (simp add: str_nat.simps [of m] str_nat.simps [of n] digit_char_inj)
    next
      case False
      with msmall "1.prems" str_nat_nonempty [of "n div 10"] show ?thesis
        by (simp add: str_nat.simps [of m] str_nat.simps [of n])
    qed
  next
    case mbig: False
    show ?thesis
    proof (cases "n < 10")
      case True
      with mbig "1.prems" str_nat_nonempty [of "m div 10"] show ?thesis
        by (simp add: str_nat.simps [of m] str_nat.simps [of n])
    next
      case False
      with mbig "1.prems" have eq: "str_nat (m div 10) = str_nat (n div 10)"
        and d: "digit_char (m mod 10) = digit_char (n mod 10)"
        by (simp_all add: str_nat.simps [of m] str_nat.simps [of n])
      from "1.IH" [OF mbig eq] have q: "m div 10 = n div 10" .
      from d have r: "m mod 10 = n mod 10" by (simp add: digit_char_inj)
      from q r show ?thesis by (metis div_mult_mod_eq)
    qed
  qed
qed

definition candidate :: "string \<Rightarrow> string \<Rightarrow> nat \<Rightarrow> string" where
  "candidate base ext counter = base @ ''('' @ str_nat counter @ '')'' @ ext"

lemma candidate_inj: "candidate base ext j = candidate base ext k \<Longrightarrow> j = k"
  by (simp add: candidate_def str_nat_inj)

definition taken_from :: "filesystem \<Rightarrow> path \<Rightarrow> string \<Rightarrow> string \<Rightarrow> nat \<Rightarrow> nat set" where
  "taken_from fs dest_dir base ext counter =
     {k. counter \<le> k \<and> node_at fs (dest_dir @ [candidate base ext k]) \<noteq> None}"

lemma finite_taken_from: "finite (taken_from fs dest_dir base ext counter)"
proof -
  let ?f = "\<lambda>k. dest_dir @ [candidate base ext k]"
  have inj: "inj ?f" by (rule injI) (simp add: candidate_inj)
  have "taken_from fs dest_dir base ext counter \<subseteq> ?f -` (fst ` set fs)"
    by (auto simp: taken_from_def node_at_def map_of_eq_None_iff)
  moreover have "finite (?f -` (fst ` set fs))"
    by (rule finite_vimageI [OF _ inj]) simp
  ultimately show ?thesis by (rule finite_subset)
qed

lemma taken_from_Suc:
  assumes "node_at fs (dest_dir @ [candidate base ext counter]) \<noteq> None"
  shows "card (taken_from fs dest_dir base ext (Suc counter)) < card (taken_from fs dest_dir base ext counter)"
proof (rule psubset_card_mono [OF finite_taken_from])
  from assms have "counter \<in> taken_from fs dest_dir base ext counter"
    by (simp add: taken_from_def)
  moreover have "counter \<notin> taken_from fs dest_dir base ext (Suc counter)"
    by (simp add: taken_from_def)
  moreover have "taken_from fs dest_dir base ext (Suc counter) \<subseteq> taken_from fs dest_dir base ext counter"
    by (auto simp: taken_from_def)
  ultimately show "taken_from fs dest_dir base ext (Suc counter) \<subset> taken_from fs dest_dir base ext counter"
    by blast
qed

lemma Path_exists_files: "Path_exists p w = (r, w') \<Longrightarrow> files w' = files w"
  by (auto simp: Path_exists_def tick_def split: option.splits)

lemma Path_exists_True: "Path_exists p w = (Inr True, w') \<Longrightarrow> node_at (files w) p \<noteq> None"
  by (auto simp: Path_exists_def split: option.splits)

text \<open>
  \<^verbatim>\<open>
    def make_unique(self, dest_dir, filename):
        base = Path(filename).stem
        ext = Path(filename).suffix
        counter = 1
        while True:
            new_name = f"{base}({counter}){ext}"
            new_path = dest_dir / new_name
            if not new_path.exists():
                return new_name
            counter += 1
  \<close>
  \<open>make_unique_loop\<close> is the \<^verbatim>\<open>while\<close> loop, entered with the current counter.
  \<open>dest_dir / name\<close> is \<open>dest_dir @ [name]\<close>: a directory entry's name is one component.
\<close>

function make_unique_loop :: "path \<Rightarrow> string \<Rightarrow> string \<Rightarrow> nat \<Rightarrow> world \<Rightarrow> (exn + string) \<times> world" where
  "make_unique_loop dest_dir base ext counter w =
     (let new_name = base @ ''('' @ str_nat counter @ '')'' @ ext;
          new_path = dest_dir @ [new_name]
      in case Path_exists new_path w of
           (Inl e, w') \<Rightarrow> (Inl e, w')
         | (Inr found, w') \<Rightarrow>
             if \<not> found then (Inr new_name, w')
             else make_unique_loop dest_dir base ext (counter + 1) w')"
  by pat_completeness auto
termination
proof (relation "measure (\<lambda>(dest_dir, base, ext, counter, w). card (taken_from (files w) dest_dir base ext counter))")
  show "wf (measure (\<lambda>(dest_dir, base, ext, counter, w). card (taken_from (files w) dest_dir base ext counter)))"
    by simp
next
  fix dest_dir base ext counter w new_name new_path r w' found
  assume n: "new_name = base @ ''('' @ str_nat counter @ '')'' @ ext"
    and p: "new_path = dest_dir @ [new_name]"
    and r: "(r, w') = Path_exists new_path w"
    and f: "r = Inr found" "\<not> \<not> found"
  from r f have ex: "Path_exists new_path w = (Inr True, w')" by simp
  from Path_exists_files [OF ex] have fs: "files w' = files w" .
  from Path_exists_True [OF ex] n p
  have "node_at (files w) (dest_dir @ [candidate base ext counter]) \<noteq> None"
    by (simp add: candidate_def)
  from taken_from_Suc [OF this] fs
  show "((dest_dir, base, ext, counter + 1, w'), (dest_dir, base, ext, counter, w))
      \<in> measure (\<lambda>(dest_dir, base, ext, counter, w). card (taken_from (files w) dest_dir base ext counter))"
    by simp
qed

declare make_unique_loop.simps [simp del]

definition make_unique :: "path \<Rightarrow> string \<Rightarrow> world \<Rightarrow> (exn + string) \<times> world" where
  "make_unique dest_dir filename w =
     (let base = stem filename; ext = suffix filename
      in make_unique_loop dest_dir base ext 1 w)"

section \<open>The Mover, the rule lookup and the scanner\<close>

text \<open>
  \<^verbatim>\<open>self.config\<close>: the source directory and the rule table, a dictionary from
  extensions to destination directories.
\<close>

record config =
  source_dir :: path
  extensions :: "string \<rightharpoonup> path"

text \<open>
  \<^verbatim>\<open>
    def move_file(self, entry, dest_dir, name):
        try:
            dest_dir.mkdir(exist_ok=True, parents=True)
            dest_path = dest_dir / name
            if dest_path.exists():
                name = self.make_unique(dest_dir, name)
                dest_path = dest_dir / name
            move(entry.path, str(dest_path))
            log_buffer.append(f"Moved: {name} (arrow) {dest_dir}")
        except Exception as e:
            log_buffer.append(f"Error moving {name}: {str(e)}")
  \<close>
  \<open>move_file_try\<close> is the body of the \<^verbatim>\<open>try\<close>: it returns how the block was left (an
  exception or normally), the value the local variable \<^verbatim>\<open>name\<close> has at that moment, and
  the state. \<open>move_and_log\<close> is its last two statements, which both branches of the
  \<^verbatim>\<open>if\<close> reach. \<open>move_file\<close> adds the handler.
\<close>

definition move_and_log ::
  "dir_entry \<Rightarrow> path \<Rightarrow> string \<Rightarrow> world \<Rightarrow> (exn + unit) \<times> string \<times> world" where
  "move_and_log entry dest_dir name w =
     (let dest_path = dest_dir @ [name]
      in case move (entry_path entry) dest_path w of
           (Inl e, w') \<Rightarrow> (Inl e, name, w')
         | (Inr _, w') \<Rightarrow>
             (Inr (), name, w'\<lparr>log_buffer := log_append (Moved name dest_dir) (log_buffer w')\<rparr>))"

definition move_file_try ::
  "dir_entry \<Rightarrow> path \<Rightarrow> string \<Rightarrow> world \<Rightarrow> (exn + unit) \<times> string \<times> world" where
  "move_file_try entry dest_dir name w =
     (case Path_mkdir dest_dir w of
        (Inl e, w1) \<Rightarrow> (Inl e, name, w1)
      | (Inr _, w1) \<Rightarrow>
          (let dest_path = dest_dir @ [name]
           in case Path_exists dest_path w1 of
                (Inl e, w2) \<Rightarrow> (Inl e, name, w2)
              | (Inr found, w2) \<Rightarrow>
                  if found
                  then (case make_unique dest_dir name w2 of
                          (Inl e, w3) \<Rightarrow> (Inl e, name, w3)
                        | (Inr name', w3) \<Rightarrow> move_and_log entry dest_dir name' w3)
                  else move_and_log entry dest_dir name w2))"

definition move_file :: "dir_entry \<Rightarrow> path \<Rightarrow> string \<Rightarrow> world \<Rightarrow> world" where
  "move_file entry dest_dir name w =
     (case move_file_try entry dest_dir name w of
        (Inr _, _, w') \<Rightarrow> w'
      | (Inl e, name', w') \<Rightarrow>
          w'\<lparr>log_buffer := log_append (ErrorMoving name' e) (log_buffer w')\<rparr>)"

text \<open>
  \<^verbatim>\<open>
    def process_file(self, entry):
        name = entry.name
        ext = Path(name).suffix.lower()
        if ext in self.config["extensions"]:
            dest = Path(self.config["extensions"][ext])
            self.move_file(entry, dest, name)
  \<close>
\<close>

definition process_file :: "config \<Rightarrow> dir_entry \<Rightarrow> world \<Rightarrow> world" where
  "process_file cfg entry w =
     (let name = entry_name entry;
          ext = lower (suffix name)
      in case extensions cfg ext of
           None \<Rightarrow> w
         | Some dest \<Rightarrow> move_file entry dest name w)"

text \<open>
  \<^verbatim>\<open>
    def on_modified(self, event):
        if not event.is_directory:
            return
        with os.scandir(self.config["source_dir"]) as entries:
            for entry in entries:
                if entry.is_file():
                    self.process_file(entry)
  \<close>
  \<open>process_entries\<close> is the \<^verbatim>\<open>for\<close> loop. Nothing in \<^verbatim>\<open>on_modified\<close> catches an
  exception: one raised by \<^verbatim>\<open>os.scandir\<close> or inside the loop ends the scan and is the
  result of the handler.
\<close>

fun process_entries :: "config \<Rightarrow> dir_entry list \<Rightarrow> world \<Rightarrow> (exn + unit) \<times> world" where
  "process_entries cfg [] w = (Inr (), w)"
| "process_entries cfg (entry # entries) w =
     (case is_file entry w of
        (Inl e, w') \<Rightarrow> (Inl e, w')
      | (Inr b, w') \<Rightarrow>
          process_entries cfg entries (if b then process_file cfg entry w' else w'))"

definition on_modified :: "config \<Rightarrow> bool \<Rightarrow> world \<Rightarrow> (exn + unit) \<times> world" where
  "on_modified cfg is_directory w =
     (if \<not> is_directory then (Inr (), w)
      else (case scandir (source_dir cfg) w of
              (Inl e, w') \<Rightarrow> (Inl e, w')
            | (Inr entries, w') \<Rightarrow> process_entries cfg entries w'))"

text \<open>
  A run of the scan in which nothing fails: no exception ends the loop and every
  \<^verbatim>\<open>try\<close> block of the Mover is left normally. \<open>moves_succeed\<close> follows the loop of
  \<open>process_entries\<close> step by step.
\<close>

fun moves_succeed :: "config \<Rightarrow> dir_entry list \<Rightarrow> world \<Rightarrow> bool" where
  "moves_succeed cfg [] w = True"
| "moves_succeed cfg (entry # entries) w =
     (case is_file entry w of
        (Inl e, w') \<Rightarrow> False
      | (Inr b, w') \<Rightarrow>
          if b
          then (case extensions cfg (lower (suffix (entry_name entry))) of
                  None \<Rightarrow> moves_succeed cfg entries w'
                | Some dest \<Rightarrow>
                    (case move_file_try entry dest (entry_name entry) w' of
                       (Inl e, name', w'') \<Rightarrow> False
                     | (Inr u, name', w'') \<Rightarrow> moves_succeed cfg entries w''))
          else moves_succeed cfg entries w')"

definition scan_without_failure :: "config \<Rightarrow> world \<Rightarrow> bool" where
  "scan_without_failure cfg w =
     (case scandir (source_dir cfg) w of
        (Inl e, w') \<Rightarrow> False
      | (Inr entries, w') \<Rightarrow> moves_succeed cfg entries w')"

text \<open>
  The value of the Mover's variable \<^verbatim>\<open>name\<close> when the \<^verbatim>\<open>try\<close> block is left, read off
  the steps before the move: the collision-resolved name once \<^verbatim>\<open>make_unique\<close> has
  returned, the file name passed in otherwise.
\<close>

definition final_name :: "dir_entry \<Rightarrow> path \<Rightarrow> string \<Rightarrow> world \<Rightarrow> string" where
  "final_name entry dest_dir name w =
     (case Path_mkdir dest_dir w of
        (Inl _, _) \<Rightarrow> name
      | (Inr _, w1) \<Rightarrow>
          (case Path_exists (dest_dir @ [name]) w1 of
             (Inl _, _) \<Rightarrow> name
           | (Inr found, w2) \<Rightarrow>
               if found
               then (case make_unique dest_dir name w2 of
                       (Inl _, _) \<Rightarrow> name
                     | (Inr name', _) \<Rightarrow> name')
               else name))"

section \<open>The specification's wording and example states\<close>

text \<open>
  The extension as the specification words it: the part of the file name from its last
  \<open>.\<close> to the end.
\<close>

definition from_last_dot :: "string \<Rightarrow> string" where
  "from_last_dot name = drop (nat (rfind name (CHR ''.''))) name"

text \<open>
  A source directory \<^verbatim>\<open>/src\<close> with \<^verbatim>\<open>a.png\<close> and \<^verbatim>\<open>README\<close>, a destination
  \<^verbatim>\<open>/dest\<close> that already holds an \<^verbatim>\<open>a.png\<close>, an environment in which nothing fails,
  an empty log, and the rule table \<^verbatim>\<open>{".png": "/dest"}\<close>. \<open>disk_full_at n\<close> is the
  environment in which the call number \<open>n\<close> fails with a full disk;
  \<open>crowded_world\<close> has an \<^verbatim>\<open>a(1).png\<close> in the destination as well.
\<close>

definition example_files :: filesystem where
  "example_files =
     [([''src''], Dir), ([''src'', ''a.png''], File ''new''), ([''src'', ''README''], File ''r''),
      ([''dest''], Dir), ([''dest'', ''a.png''], File ''old'')]"

definition example_world :: world where
  "example_world = \<lparr>files = example_files, faults = (\<lambda>t. None), clock = 0, log_buffer = []\<rparr>"

definition disk_full_at :: "nat \<Rightarrow> nat \<Rightarrow> fault option" where
  "disk_full_at n t =
     (if t = n then Some (FailsPartway (OSError ''[Errno 28] No space left on device'') ''ne'')
      else None)"

definition unreadable_at :: "nat \<Rightarrow> nat \<Rightarrow> fault option" where
  "unreadable_at n t =
     (if t = n then Some (Fails (OSError ''[Errno 5] Input/output error'')) else None)"

definition example_config :: config where
  "example_config = \<lparr>source_dir = [''src''], extensions = [''.png'' \<mapsto> [''dest'']]\<rparr>"

definition example_entry :: "string \<Rightarrow> dir_entry" where
  "example_entry nm = \<lparr>entry_name = nm, entry_path = [''src'', nm], entry_is_file = True\<rparr>"

definition crowded_world :: world where
  "crowded_world =
     example_world\<lparr>files := example_files @ [([''dest'', ''a(1).png''], File ''older'')]\<rparr>"

section \<open>Names, suffixes and lowercasing\<close>

lemma split_on_nonempty: "split_on c s \<noteq> []"
  by (induction s) (auto split: list.splits)

lemma split_on_subset: "x \<in> set (split_on c s) \<Longrightarrow> set x \<subseteq> set s"
proof (induction s arbitrary: x)
  case Nil
  then show ?case by simp
next
  case (Cons a s)
  show ?case
  proof (cases "a = c")
    case True
    with Cons show ?thesis by auto
  next
    case False
    obtain p ps where sp: "split_on c s = p # ps"
      using split_on_nonempty [of c s] by (cases "split_on c s") auto
    with Cons.prems False have "x = a # p \<or> x \<in> set ps" by simp
    then show ?thesis
    proof
      assume "x = a # p"
      moreover from Cons.IH [of p] sp have "set p \<subseteq> set s" by simp
      ultimately show ?thesis by auto
    next
      assume "x \<in> set ps"
      with Cons.IH [of x] sp show ?thesis by auto
    qed
  qed
qed

lemma path_name_subset: "set (path_name p) \<subseteq> set p"
proof -
  let ?xs = "rev (filter (\<lambda>x. x \<noteq> [] \<and> x \<noteq> ''.'') (split_on (CHR ''/'') p))"
  show ?thesis
  proof (cases ?xs)
    case Nil
    then show ?thesis by (simp add: path_name_def)
  next
    case (Cons x xs)
    then have "x \<in> set ?xs" by simp
    then have "x \<in> set (split_on (CHR ''/'') p)" by simp
    from split_on_subset [OF this] Cons show ?thesis by (simp add: path_name_def)
  qed
qed

lemma split_on_no_sep: "c \<notin> set s \<Longrightarrow> split_on c s = [s]"
  by (induction s) auto

lemma path_name_component:
  "CHR ''/'' \<notin> set s \<Longrightarrow> path_name s = (if s = [] \<or> s = ''.'' then [] else s)"
  by (simp add: path_name_def split_on_no_sep)

lemma rfind_absent: "c \<notin> set s \<Longrightarrow> rfind s c = - 1"
  by (simp add: rfind_def)

lemma rfind_last:
  assumes "c \<notin> set post"
  shows "rfind (pre @ c # post) c = int (length pre)"
proof -
  have "takeWhile (\<lambda>x. x \<noteq> c) (rev post @ c # rev pre) = rev post"
    using assms by (auto simp: takeWhile_tail)
  then show ?thesis by (simp add: rfind_def)
qed

lemma suffix_no_dot: "CHR ''.'' \<notin> set name \<Longrightarrow> suffix name = []"
proof -
  assume "CHR ''.'' \<notin> set name"
  with path_name_subset [of name] have "CHR ''.'' \<notin> set (path_name name)" by blast
  then show ?thesis by (simp add: suffix_def rfind_absent Let_def)
qed

lemma suffix_split:
  assumes "CHR ''/'' \<notin> set name" and "name = pre @ CHR ''.'' # post" and "CHR ''.'' \<notin> set post"
  shows "suffix name = (if pre \<noteq> [] \<and> post \<noteq> [] then CHR ''.'' # post else [])"
proof (cases "name = ''.''")
  case True
  with assms show ?thesis by (auto simp: suffix_def path_name_component rfind_absent Let_def Cons_eq_append_conv)
next
  case False
  with assms have pn: "path_name name = pre @ CHR ''.'' # post"
    by (simp add: path_name_component)
  show ?thesis
    using assms(3) by (auto simp: suffix_def pn rfind_last Let_def)
qed

lemma stem_split:
  assumes "CHR ''/'' \<notin> set name" and "name = pre @ CHR ''.'' # post" and "CHR ''.'' \<notin> set post"
    and "pre \<noteq> []" and "post \<noteq> []"
  shows "stem name = pre"
proof -
  from assms(4) obtain a pre' where "pre = a # pre'" by (cases pre) auto
  with assms(2) have "name \<noteq> ''.''" by simp
  with assms have pn: "path_name name = pre @ CHR ''.'' # post"
    by (simp add: path_name_component)
  show ?thesis
    using assms(3,4,5) by (auto simp: stem_def pn rfind_last Let_def)
qed

section \<open>The resolver loop and what the Mover steps leave unchanged\<close>

lemma tick_simps [simp]:
  "files (tick w) = files w" "faults (tick w) = faults w"
  "log_buffer (tick w) = log_buffer w" "clock (tick w) = Suc (clock w)"
  by (simp_all add: tick_def)

lemma make_unique_loop_unfold:
  "make_unique_loop d b e k w =
     (case faults w (clock w) of
        Some f \<Rightarrow> (Inl (raised f), tick w)
      | None \<Rightarrow>
          if node_at (files w) (d @ [candidate b e k]) = None
          then (Inr (candidate b e k), tick w)
          else make_unique_loop d b e (Suc k) (tick w))"
  by (subst make_unique_loop.simps)
    (simp add: Path_exists_def candidate_def Let_def split: option.splits)

lemma make_unique_loop_cases:
  assumes step: "\<And>d b e k w.
      (faults w (clock w) = None \<Longrightarrow> node_at (files w) (d @ [candidate b e k]) \<noteq> None
        \<Longrightarrow> P d b e (Suc k) (tick w)) \<Longrightarrow> P d b e k w"
  shows "P d b e k w"
proof (induction d b e k w rule: make_unique_loop.induct)
  case (1 d b e k w)
  show ?case
  proof (rule step)
    assume f: "faults w (clock w) = None"
      and n: "node_at (files w) (d @ [candidate b e k]) \<noteq> None"
    from f n have "(Inr True, tick w) = Path_exists (d @ [b @ ''('' @ str_nat k @ '')'' @ e]) w"
      by (simp add: Path_exists_def candidate_def)
    from "1.IH" [OF refl refl this refl] show "P d b e (Suc k) (tick w)" by simp
  qed
qed

lemma make_unique_loop_frame:
  "make_unique_loop d b e k w = (r, w') \<Longrightarrow>
     files w' = files w \<and> faults w' = faults w \<and> log_buffer w' = log_buffer w"
proof (induction d b e k w rule: make_unique_loop_cases)
  case (1 d b e k w)
  from "1.prems" "1.IH" show ?case
    by (subst (asm) make_unique_loop_unfold) (auto split: option.splits if_splits)
qed

lemma make_unique_loop_fresh:
  "make_unique_loop d b e k w = (Inr n, w') \<Longrightarrow> node_at (files w) (d @ [n]) = None"
proof (induction d b e k w rule: make_unique_loop_cases)
  case (1 d b e k w)
  from "1.prems" "1.IH" show ?case
    by (subst (asm) make_unique_loop_unfold) (auto split: option.splits if_splits)
qed

lemma make_unique_loop_first_free:
  assumes "\<And>t. faults w t = None"
    and "k \<le> N"
    and "\<And>j. k \<le> j \<Longrightarrow> j < N \<Longrightarrow> node_at (files w) (d @ [candidate b e j]) \<noteq> None"
    and "node_at (files w) (d @ [candidate b e N]) = None"
  shows "fst (make_unique_loop d b e k w) = Inr (candidate b e N)"
  using assms
proof (induction "N - k" arbitrary: k w)
  case 0
  then have "k = N" by simp
  with "0.prems" show ?case
    by (subst make_unique_loop_unfold) simp
next
  case (Suc m)
  then have lt: "k < N" by simp
  with Suc.prems(3) [of k] have ex: "node_at (files w) (d @ [candidate b e k]) \<noteq> None" by simp
  have "fst (make_unique_loop d b e (Suc k) (tick w)) = Inr (candidate b e N)"
  proof (rule Suc.hyps(1))
    show "m = N - Suc k" using Suc.hyps(2) by simp
    show "\<And>t. faults (tick w) t = None" using Suc.prems(1) by simp
    show "Suc k \<le> N" using lt by simp
    show "\<And>j. Suc k \<le> j \<Longrightarrow> j < N \<Longrightarrow> node_at (files (tick w)) (d @ [candidate b e j]) \<noteq> None"
      using Suc.prems(3) by simp
    show "node_at (files (tick w)) (d @ [candidate b e N]) = None"
      using Suc.prems(4) by simp
  qed
  with ex Suc.prems(1) show ?case
    by (subst make_unique_loop_unfold) auto
qed

lemma Path_mkdir_frame:
  "Path_mkdir d w = (r, w') \<Longrightarrow> faults w' = faults w \<and> log_buffer w' = log_buffer w"
  by (auto simp: Path_mkdir_def split: option.splits prod.splits)

lemma Path_exists_frame:
  "Path_exists p w = (r, w') \<Longrightarrow>
     files w' = files w \<and> faults w' = faults w \<and> log_buffer w' = log_buffer w"
  by (auto simp: Path_exists_def split: option.splits)

lemma move_frame:
  "move s t w = (r, w') \<Longrightarrow> faults w' = faults w \<and> log_buffer w' = log_buffer w"
  by (auto simp: move_def split: option.splits sum.splits fault.splits)

lemma make_unique_frame:
  "make_unique d n w = (r, w') \<Longrightarrow>
     files w' = files w \<and> faults w' = faults w \<and> log_buffer w' = log_buffer w"
  by (simp add: make_unique_def Let_def make_unique_loop_frame)

lemma move_and_log_buffer:
  "move_and_log entry d n w = (r, n', w') \<Longrightarrow>
     n' = n \<and> log_buffer w' = (case r of Inl _ \<Rightarrow> log_buffer w
                                | Inr _ \<Rightarrow> log_append (Moved n d) (log_buffer w))"
  by (auto simp: move_and_log_def Let_def split: prod.splits sum.splits dest: move_frame)

lemma move_file_try_buffer:
  assumes "move_file_try entry d n w = (r, n', w')"
  shows "log_buffer w' = (case r of Inl _ \<Rightarrow> log_buffer w
                          | Inr _ \<Rightarrow> log_append (Moved n' d) (log_buffer w))"
proof -
  obtain r1 w1 where mk: "Path_mkdir d w = (r1, w1)" by (cases "Path_mkdir d w")
  obtain r2 w2 where ex: "Path_exists (d @ [n]) w1 = (r2, w2)" by (cases "Path_exists (d @ [n]) w1")
  obtain r3 w3 where mu: "make_unique d n w2 = (r3, w3)" by (cases "make_unique d n w2")
  from Path_mkdir_frame [OF mk] have l1: "log_buffer w1 = log_buffer w" by simp
  from Path_exists_frame [OF ex] have l2: "log_buffer w2 = log_buffer w1" by simp
  from make_unique_frame [OF mu] have l3: "log_buffer w3 = log_buffer w2" by simp
  show ?thesis
  proof (cases r1)
    case (Inl e)
    with assms mk l1 show ?thesis by (auto simp: move_file_try_def)
  next
    case mkok: (Inr u)
    show ?thesis
    proof (cases r2)
      case (Inl e)
      with assms mk ex mkok l1 l2 show ?thesis by (auto simp: move_file_try_def)
    next
      case exok: (Inr found)
      show ?thesis
      proof (cases found)
        case False
        with assms mk ex mkok exok have "move_and_log entry d n w2 = (r, n', w')"
          by (simp add: move_file_try_def)
        from move_and_log_buffer [OF this] l1 l2 show ?thesis by (cases r) simp_all
      next
        case True
        show ?thesis
        proof (cases r3)
          case (Inl e)
          with assms mk ex mu mkok exok True l1 l2 l3 show ?thesis
            by (auto simp: move_file_try_def)
        next
          case (Inr name')
          with assms mk ex mu mkok exok True have "move_and_log entry d name' w3 = (r, n', w')"
            by (simp add: move_file_try_def)
          from move_and_log_buffer [OF this] l1 l2 l3 show ?thesis by (cases r) simp_all
        qed
      qed
    qed
  qed
qed

section \<open>The Activity Log is bounded\<close>

lemma log_append_drop:
  assumes "length buf \<le> maxlen"
  shows "log_append x buf = drop (length (buf @ [x]) - maxlen) (buf @ [x])"
proof (cases "length buf < maxlen")
  case True
  then show ?thesis by (simp add: log_append_def Let_def)
next
  case False
  with assms have full: "length buf = maxlen" by simp
  then have one: "length (buf @ [x]) - maxlen = Suc 0" by simp
  from full have "log_append x buf = tl (buf @ [x])"
    by (simp add: log_append_def Let_def)
  also have "\<dots> = drop (Suc 0) (buf @ [x])"
    by (simp add: drop_Suc del: drop_append)
  finally show ?thesis by (simp only: one)
qed

lemma fold_log_append:
  "length buf \<le> maxlen \<Longrightarrow>
     fold log_append xs buf = drop (length (buf @ xs) - maxlen) (buf @ xs)"
proof (induction xs rule: rev_induct)
  case Nil
  then show ?case by simp
next
  case (snoc x xs)
  let ?L = "drop (length (buf @ xs) - maxlen) (buf @ xs)"
  from snoc have IH: "fold log_append xs buf = ?L" by simp
  have len: "length ?L \<le> maxlen" by simp
  have "fold log_append (xs @ [x]) buf = log_append x ?L" by (simp add: IH)
  also have "\<dots> = drop (length (?L @ [x]) - maxlen) (?L @ [x])"
    by (rule log_append_drop [OF len])
  also have "?L @ [x] = drop (length (buf @ xs) - maxlen) (buf @ xs @ [x])"
    by simp
  also have "drop (length (drop (length (buf @ xs) - maxlen) (buf @ xs @ [x])) - maxlen)
        (drop (length (buf @ xs) - maxlen) (buf @ xs @ [x]))
      = drop (length (buf @ xs @ [x]) - maxlen) (buf @ xs @ [x])"
  proof -
    have "length (buf @ xs) - maxlen
          + (Suc (length (buf @ xs)) - (maxlen + (length (buf @ xs) - maxlen)))
        = Suc (length (buf @ xs)) - maxlen"
      by arith
    then show ?thesis by (simp del: drop_append add: add.commute)
  qed
  finally show ?case .
qed

text \<open>
  Claim C8. The Activity Log is \<^verbatim>\<open>deque(maxlen=50)\<close>, empty at start and after a clear.
  After any sequence \<open>xs\<close> of appends it holds at most 50 entries, namely the last
  (at most) 50 of \<open>xs\<close> in the order they were appended; after 60 appends these are
  the entries 11 to 60, the ten oldest having been dropped from the front.
\<close>

theorem activity_log_keeps_last_50:
  "length (fold log_append xs []) \<le> 50
   \<and> fold log_append xs [] = drop (length xs - 50) xs
   \<and> (length xs = 60 \<longrightarrow> fold log_append xs [] = drop 10 xs)"
  using fold_log_append [of "[]" xs] by (simp add: maxlen_def)


theorem activity_log_keeps_last_50_witness:
  "fold log_append (map (\<lambda>n. Moved (str_nat n) [''dest'']) [0..<60]) []
     = drop 10 (map (\<lambda>n. Moved (str_nat n) [''dest'']) [0..<60])"
  using activity_log_keeps_last_50 [of "map (\<lambda>n. Moved (str_nat n) [''dest'']) [0..<60]"]
  by (simp only: length_map length_upt) simp

section \<open>The extension used for the rule lookup\<close>

lemma lower_simps [simp]: "lower [] = []" "lower (c # s) = lower_char c # lower s"
  by (simp_all add: lower_def)

text \<open>
  Claim C5 (amended). For a file name that is a single path component and whose last
  \<open>.\<close> splits it into \<open>pre\<close> and \<open>post\<close>, the extension used for the rule lookup is the
  part from that last \<open>.\<close> to the end, lowercased, provided the \<open>.\<close> is neither the first
  nor the last character of the name; when it is the first character (\<open>.bashrc\<close>) or the
  last one (\<open>archive.\<close>) the extension is empty.
\<close>

theorem extension_is_pathlib_suffix:
  assumes "CHR ''/'' \<notin> set name"
    and "name = pre @ CHR ''.'' # post"
    and "CHR ''.'' \<notin> set post"
  shows "lower (suffix name) = (if pre \<noteq> [] \<and> post \<noteq> [] then lower (CHR ''.'' # post) else [])"
  using suffix_split [OF assms] by simp

theorem extension_is_pathlib_suffix_witness:
  "lower (suffix ''Photo.tar.GZ'') = ''.gz''"
proof -
  have h1: "CHR ''/'' \<notin> set ''Photo.tar.GZ''" by simp
  have h2: "''Photo.tar.GZ'' = ''Photo.tar'' @ CHR ''.'' # ''GZ''" by simp
  have h3: "CHR ''.'' \<notin> set ''GZ''" by simp
  have "lower (suffix ''Photo.tar.GZ'') = lower ''.GZ''"
    using extension_is_pathlib_suffix [OF h1 h2 h3] by simp
  also have "\<dots> = ''.gz''" by code_simp
  finally show ?thesis .
qed

text \<open>
  The claim as written fails at \<open>.bashrc\<close>: the name contains a \<open>.\<close>, the part from its
  last \<open>.\<close> to the end is the whole name, and the extension the code extracts is empty.
\<close>

theorem bashrc_extension_counterexample:
  "CHR ''.'' \<in> set ''.bashrc'' \<and> from_last_dot ''.bashrc'' = ''.bashrc''
   \<and> lower (suffix ''.bashrc'') = []
   \<and> lower (suffix ''.bashrc'') \<noteq> lower (from_last_dot ''.bashrc'')"
  by code_simp

section \<open>Names without a dot; the Mover and its log entries\<close>

text \<open>
  Claim C6 (amended). A file name without \<open>.\<close> has the empty extension, so the lookup
  finds a rule exactly when the rule table has the empty string as a key. With no such
  key the file is never routed or moved: \<open>process_file\<close> returns the state it was given.
\<close>

theorem no_dot_name_matches_only_empty_key:
  assumes "CHR ''.'' \<notin> set (entry_name entry)"
  shows "lower (suffix (entry_name entry)) = []
    \<and> process_file cfg entry w =
        (case extensions cfg [] of
           None \<Rightarrow> w
         | Some dest \<Rightarrow> move_file entry dest (entry_name entry) w)
    \<and> (extensions cfg [] = None \<longrightarrow> process_file cfg entry w = w)"
  using suffix_no_dot [OF assms] by (simp add: process_file_def Let_def)

theorem no_dot_name_matches_only_empty_key_witness:
  "lower (suffix ''README'') = []
   \<and> process_file example_config (example_entry ''README'') example_world = example_world"
proof -
  have h: "CHR ''.'' \<notin> set (entry_name (example_entry ''README''))"
    by (simp add: example_entry_def)
  have k: "extensions example_config [] = None"
    by (simp add: example_config_def)
  from no_dot_name_matches_only_empty_key [OF h, of example_config example_world] k
  show ?thesis by (simp add: example_entry_def)
qed

text \<open>
  The claim as written fails for a rule table that has the empty string as a key:
  \<open>README\<close> is then routed, moved into the destination and logged.
\<close>

theorem empty_key_routes_README_counterexample:
  "CHR ''.'' \<notin> set ''README''
   \<and> files (process_file (example_config\<lparr>extensions := [[] \<mapsto> [''dest'']]\<rparr>)
        (example_entry ''README'') example_world)
      = [([''src''], Dir), ([''src'', ''a.png''], File ''new''), ([''dest''], Dir),
         ([''dest'', ''a.png''], File ''old''), ([''dest'', ''README''], File ''r'')]
   \<and> log_buffer (process_file (example_config\<lparr>extensions := [[] \<mapsto> [''dest'']]\<rparr>)
        (example_entry ''README'') example_world)
      = [Moved ''README'' [''dest'']]"
  by code_simp

lemma move_file_try_name:
  "fst (snd (move_file_try entry dest_dir name w)) = final_name entry dest_dir name w"
  by (auto simp: move_file_try_def final_name_def move_and_log_def Let_def
      split: prod.splits sum.splits)

lemma move_file_logs_one_entry:
  "\<exists>x. log_buffer (move_file entry dest_dir name w) = log_append x (log_buffer w)"
proof -
  obtain r n' w' where t: "move_file_try entry dest_dir name w = (r, n', w')"
    by (cases "move_file_try entry dest_dir name w")
  from move_file_try_buffer [OF t] t show ?thesis
    by (cases r) (auto simp: move_file_def)
qed

lemma move_and_log_failure:
  "move (entry_path entry) (d @ [n]) w = (Inl e, w') \<Longrightarrow>
     move_and_log entry d n w = (Inl e, n, w')"
  by (simp add: move_and_log_def Let_def)

text \<open>
  Claim C3. Every invocation of the Mover returns a state (the model is a total
  function: every exception a step raises is a value that reaches the handler) and
  appends exactly one entry to the Activity Log. Whichever step fails, directory
  creation, the existence test, collision resolution or the move, on the direct path or
  after a rename, the result is the state at the failure with one failure entry built
  from that step's exception appended to the log as it was at the call.
\<close>

theorem mover_logs_every_failure:
  "(\<exists>x. log_buffer (move_file entry dest_dir name w) = log_append x (log_buffer w))
   \<and> (\<forall>e w1. Path_mkdir dest_dir w = (Inl e, w1) \<longrightarrow>
         move_file entry dest_dir name w
           = w1\<lparr>log_buffer := log_append (ErrorMoving name e) (log_buffer w)\<rparr>)
   \<and> (\<forall>u w1 e w2. Path_mkdir dest_dir w = (Inr u, w1)
         \<and> Path_exists (dest_dir @ [name]) w1 = (Inl e, w2) \<longrightarrow>
         move_file entry dest_dir name w
           = w2\<lparr>log_buffer := log_append (ErrorMoving name e) (log_buffer w)\<rparr>)
   \<and> (\<forall>u w1 w2 e w3. Path_mkdir dest_dir w = (Inr u, w1)
         \<and> Path_exists (dest_dir @ [name]) w1 = (Inr True, w2)
         \<and> make_unique dest_dir name w2 = (Inl e, w3) \<longrightarrow>
         move_file entry dest_dir name w
           = w3\<lparr>log_buffer := log_append (ErrorMoving name e) (log_buffer w)\<rparr>)
   \<and> (\<forall>u w1 w2 e w3. Path_mkdir dest_dir w = (Inr u, w1)
         \<and> Path_exists (dest_dir @ [name]) w1 = (Inr False, w2)
         \<and> move (entry_path entry) (dest_dir @ [name]) w2 = (Inl e, w3) \<longrightarrow>
         move_file entry dest_dir name w
           = w3\<lparr>log_buffer := log_append (ErrorMoving name e) (log_buffer w)\<rparr>)
   \<and> (\<forall>u w1 w2 name' w3 e w4. Path_mkdir dest_dir w = (Inr u, w1)
         \<and> Path_exists (dest_dir @ [name]) w1 = (Inr True, w2)
         \<and> make_unique dest_dir name w2 = (Inr name', w3)
         \<and> move (entry_path entry) (dest_dir @ [name']) w3 = (Inl e, w4) \<longrightarrow>
         (\<exists>n. move_file entry dest_dir name w
           = w4\<lparr>log_buffer := log_append (ErrorMoving n e) (log_buffer w)\<rparr>))"
proof (intro conjI allI impI)
  show "\<exists>x. log_buffer (move_file entry dest_dir name w) = log_append x (log_buffer w)"
    by (rule move_file_logs_one_entry)
next
  fix e w1 assume mk: "Path_mkdir dest_dir w = (Inl e, w1)"
  from Path_mkdir_frame [OF mk] have "log_buffer w1 = log_buffer w" by simp
  with mk show "move_file entry dest_dir name w
      = w1\<lparr>log_buffer := log_append (ErrorMoving name e) (log_buffer w)\<rparr>"
    by (simp add: move_file_def move_file_try_def)
next
  fix u w1 e w2
  assume a: "Path_mkdir dest_dir w = (Inr u, w1) \<and> Path_exists (dest_dir @ [name]) w1 = (Inl e, w2)"
  then have mk: "Path_mkdir dest_dir w = (Inr u, w1)"
    and ex: "Path_exists (dest_dir @ [name]) w1 = (Inl e, w2)" by simp_all
  from Path_mkdir_frame [OF mk] Path_exists_frame [OF ex]
  have "log_buffer w2 = log_buffer w" by simp
  with mk ex show "move_file entry dest_dir name w
      = w2\<lparr>log_buffer := log_append (ErrorMoving name e) (log_buffer w)\<rparr>"
    by (simp add: move_file_def move_file_try_def)
next
  fix u w1 w2 e w3
  assume a: "Path_mkdir dest_dir w = (Inr u, w1)
      \<and> Path_exists (dest_dir @ [name]) w1 = (Inr True, w2)
      \<and> make_unique dest_dir name w2 = (Inl e, w3)"
  then have mk: "Path_mkdir dest_dir w = (Inr u, w1)"
    and ex: "Path_exists (dest_dir @ [name]) w1 = (Inr True, w2)"
    and mu: "make_unique dest_dir name w2 = (Inl e, w3)" by simp_all
  from Path_mkdir_frame [OF mk] Path_exists_frame [OF ex] make_unique_frame [OF mu]
  have "log_buffer w3 = log_buffer w" by simp
  with mk ex mu show "move_file entry dest_dir name w
      = w3\<lparr>log_buffer := log_append (ErrorMoving name e) (log_buffer w)\<rparr>"
    by (simp add: move_file_def move_file_try_def)
next
  fix u w1 w2 e w3
  assume a: "Path_mkdir dest_dir w = (Inr u, w1)
      \<and> Path_exists (dest_dir @ [name]) w1 = (Inr False, w2)
      \<and> move (entry_path entry) (dest_dir @ [name]) w2 = (Inl e, w3)"
  then have mk: "Path_mkdir dest_dir w = (Inr u, w1)"
    and ex: "Path_exists (dest_dir @ [name]) w1 = (Inr False, w2)"
    and mv: "move (entry_path entry) (dest_dir @ [name]) w2 = (Inl e, w3)" by simp_all
  from Path_mkdir_frame [OF mk] Path_exists_frame [OF ex] move_frame [OF mv]
  have "log_buffer w3 = log_buffer w" by simp
  with mk ex move_and_log_failure [OF mv] show "move_file entry dest_dir name w
      = w3\<lparr>log_buffer := log_append (ErrorMoving name e) (log_buffer w)\<rparr>"
    by (simp add: move_file_def move_file_try_def)
next
  fix u w1 w2 name' w3 e w4
  assume a: "Path_mkdir dest_dir w = (Inr u, w1)
      \<and> Path_exists (dest_dir @ [name]) w1 = (Inr True, w2)
      \<and> make_unique dest_dir name w2 = (Inr name', w3)
      \<and> move (entry_path entry) (dest_dir @ [name']) w3 = (Inl e, w4)"
  then have mk: "Path_mkdir dest_dir w = (Inr u, w1)"
    and ex: "Path_exists (dest_dir @ [name]) w1 = (Inr True, w2)"
    and mu: "make_unique dest_dir name w2 = (Inr name', w3)"
    and mv: "move (entry_path entry) (dest_dir @ [name']) w3 = (Inl e, w4)" by simp_all
  from Path_mkdir_frame [OF mk] Path_exists_frame [OF ex] make_unique_frame [OF mu]
    move_frame [OF mv]
  have "log_buffer w4 = log_buffer w" by simp
  with mk ex mu move_and_log_failure [OF mv] have "move_file entry dest_dir name w
      = w4\<lparr>log_buffer := log_append (ErrorMoving name' e) (log_buffer w)\<rparr>"
    by (simp add: move_file_def move_file_try_def)
  then show "\<exists>n. move_file entry dest_dir name w
      = w4\<lparr>log_buffer := log_append (ErrorMoving n e) (log_buffer w)\<rparr>" ..
qed

theorem mover_logs_every_failure_witness:
  "log_buffer (move_file (example_entry ''a.png'') [''dest''] ''a.png''
      (example_world\<lparr>faults := unreadable_at 0\<rparr>))
     = [ErrorMoving ''a.png'' (OSError ''[Errno 5] Input/output error'')]"
proof -
  let ?w = "example_world\<lparr>faults := unreadable_at 0\<rparr>"
  have h: "Path_mkdir [''dest''] ?w = (Inl (OSError ''[Errno 5] Input/output error''), tick ?w)"
    by (simp add: Path_mkdir_def example_world_def unreadable_at_def)
  have l: "log_buffer ?w = []" by (simp add: example_world_def)
  have a: "log_append (ErrorMoving ''a.png'' (OSError ''[Errno 5] Input/output error'')) []
      = [ErrorMoving ''a.png'' (OSError ''[Errno 5] Input/output error'')]"
    by (simp add: log_append_def maxlen_def)
  have "move_file (example_entry ''a.png'') [''dest''] ''a.png'' ?w
      = (tick ?w)\<lparr>log_buffer :=
          log_append (ErrorMoving ''a.png'' (OSError ''[Errno 5] Input/output error''))
            (log_buffer ?w)\<rparr>"
    by (rule mover_logs_every_failure [of "example_entry ''a.png''" "[''dest'']" "''a.png''" ?w,
          THEN conjunct2, THEN conjunct1, rule_format, OF h])
  then show ?thesis by (simp add: l a)
qed

text \<open>
  Claim C4, at its failing input. The source file is \<open>a.png\<close> and the destination
  already holds an \<open>a.png\<close>, so the Mover resolves the collision to \<open>a(1).png\<close>; then
  the move (the fourth file system call) breaks off with a full disk. The failure entry
  names \<open>a(1).png\<close>, a file that was never in the source directory, while the file
  that could not be moved, \<open>a.png\<close>, is still there. In every other failure of the
  Mover the handler's \<open>name\<close> is the original file name.
\<close>

theorem failed_move_after_rename_logs_renamed_name:
  "entry_name (example_entry ''a.png'') = ''a.png''
   \<and> log_buffer (move_file (example_entry ''a.png'') [''dest''] ''a.png''
          (example_world\<lparr>faults := disk_full_at 3\<rparr>))
     = [ErrorMoving ''a(1).png'' (OSError ''[Errno 28] No space left on device'')]
   \<and> node_at (files (move_file (example_entry ''a.png'') [''dest''] ''a.png''
          (example_world\<lparr>faults := disk_full_at 3\<rparr>))) [''src'', ''a.png'']
     = Some (File ''new'')
   \<and> node_at (files (move_file (example_entry ''a.png'') [''dest''] ''a.png''
          (example_world\<lparr>faults := disk_full_at 3\<rparr>))) [''dest'', ''a(1).png'']
     = Some (File ''ne'')"
  by code_simp

text \<open>
  Claim C2, at its failing inputs. First, the source directory does not exist: the scan
  raises \<^verbatim>\<open>FileNotFoundError\<close> to the caller of \<open>on_modified\<close> and the Activity Log stays
  empty. Second, the scan breaks off inside the loop: \<open>a.png\<close> has been moved and
  logged, then asking the next entry whether it is a file fails (the seventh file system
  call); the exception leaves the handler and no failure entry is appended. The Mover,
  in contrast, catches and logs every exception of its own steps.
\<close>

theorem scan_failure_leaves_handler_unlogged:
  "fst (on_modified (example_config\<lparr>source_dir := [''missing'']\<rparr>) True example_world)
     = Inl (FileNotFoundError [''missing''])
   \<and> log_buffer (snd (on_modified (example_config\<lparr>source_dir := [''missing'']\<rparr>) True
        example_world)) = []
   \<and> fst (on_modified example_config True (example_world\<lparr>faults := unreadable_at 6\<rparr>))
     = Inl (OSError ''[Errno 5] Input/output error'')
   \<and> log_buffer (snd (on_modified example_config True
        (example_world\<lparr>faults := unreadable_at 6\<rparr>)))
     = [Moved ''a(1).png'' [''dest'']]"
  by code_simp

section \<open>Frame properties of the file system operations\<close>

lemma node_at_append_new:
  "node_at fs q = Some n \<Longrightarrow> node_at (fs @ extra) q = Some n"
  by (auto simp: node_at_def map_add_Some_iff)

lemma os_mkdir_keeps:
  "os_mkdir d fs = Inr fs' \<Longrightarrow> node_at fs q = Some n \<Longrightarrow> node_at fs' q = Some n"
  by (auto simp: os_mkdir_def node_at_append_new split: if_splits option.splits node.splits)

lemma mkdir_exist_ok_keeps:
  "mkdir_exist_ok d fs = (r, fs') \<Longrightarrow> node_at fs q = Some n \<Longrightarrow> node_at fs' q = Some n"
  by (auto simp: mkdir_exist_ok_def os_mkdir_keeps split: sum.splits exn.splits if_splits)

lemma mkdir_parents_keeps:
  "mkdir_parents d fs = (r, fs') \<Longrightarrow> node_at fs q = Some n \<Longrightarrow> node_at fs' q = Some n"
proof (induction d fs arbitrary: r fs' rule: mkdir_parents.induct)
  case (1 d fs)
  show ?case
  proof (cases "os_mkdir d fs")
    case (Inr fs1)
    with "1.prems" show ?thesis
      by (simp add: mkdir_parents.simps [of d fs] os_mkdir_keeps)
  next
    case (Inl e)
    show ?thesis
    proof (cases "(\<exists>p. e = FileNotFoundError p) \<and> d \<noteq> []")
      case False
      with Inl "1.prems" show ?thesis
        by (auto simp: mkdir_parents.simps [of d fs] split: exn.splits if_splits)
    next
      case True
      obtain r1 fs1 where p: "mkdir_parents (butlast d) fs = (r1, fs1)"
        by (cases "mkdir_parents (butlast d) fs")
      from True Inl obtain p0 where a: "os_mkdir d fs = Inl (FileNotFoundError p0)"
        and b: "d \<noteq> []" by auto
      from "1.IH" [OF a refl b p "1.prems"(2)] have k1: "node_at fs1 q = Some n" .
      show ?thesis
      proof (cases r1)
        case (Inl e1)
        with a b p "1.prems"(1) k1 show ?thesis
          by (simp add: mkdir_parents.simps [of d fs])
      next
        case (Inr u)
        with a b p "1.prems"(1) have "mkdir_exist_ok d fs1 = (r, fs')"
          by (simp add: mkdir_parents.simps [of d fs])
        from mkdir_exist_ok_keeps [OF this k1] show ?thesis .
      qed
    qed
  qed
qed

lemma mkdir_parents_existing_dir:
  "node_at fs d = Some Dir \<Longrightarrow> mkdir_parents d fs = (Inr (), fs)"
  by (simp add: mkdir_parents.simps [of d fs] os_mkdir_def)

lemma Path_mkdir_keeps:
  "Path_mkdir d w = (r, w') \<Longrightarrow> node_at (files w) q = Some n \<Longrightarrow> node_at (files w') q = Some n"
  by (auto simp: Path_mkdir_def mkdir_parents_keeps split: option.splits prod.splits)

lemma Path_mkdir_existing_dir:
  "faults w (clock w) = None \<Longrightarrow> node_at (files w) d = Some Dir \<Longrightarrow>
     Path_mkdir d w = (Inr (), tick w)"
  by (simp add: Path_mkdir_def mkdir_parents_existing_dir tick_def)

lemma map_of_filter_keys:
  "map_of (filter (\<lambda>(p, n). P p) fs) q = (if P q then map_of fs q else None)"
  by (induction fs) auto

lemma node_at_moved:
  assumes "src \<noteq> []" and "dst \<noteq> []"
  shows "node_at (filter (\<lambda>(p, n). p \<noteq> src \<and> p \<noteq> dst) fs @ [(dst, File c)]) q =
     (if q = dst then Some (File c) else if q = src then None else node_at fs q)"
  using assms by (auto simp: node_at_def map_add_def map_of_filter_keys split: option.splits)

lemma shutil_move_file:
  assumes "node_at fs src = Some (File c)" and "node_at fs dst = None"
  shows "shutil_move src dst fs =
     (case node_at fs (butlast dst) of
        None \<Rightarrow> Inl (FileNotFoundError dst)
      | Some (File _) \<Rightarrow> Inl (NotADirectoryError dst)
      | Some Dir \<Rightarrow> Inr (filter (\<lambda>(p, n). p \<noteq> src \<and> p \<noteq> dst) fs @ [(dst, File c)]))"
  using assms by (simp add: shutil_move_def os_rename_def split: option.splits node.splits)

lemma node_at_nonempty: "node_at fs p = Some (File c) \<Longrightarrow> p \<noteq> []"
  by (auto simp: node_at_def)

lemma node_at_None_nonempty: "node_at fs p = None \<Longrightarrow> p \<noteq> []"
  by (auto simp: node_at_def)

lemma shutil_move_keeps:
  assumes "node_at fs src = Some (File c)" and "node_at fs dst = None"
    and "shutil_move src dst fs = Inr fs'" and "q \<noteq> src" and "node_at fs q = Some n"
  shows "node_at fs' q = Some n"
proof -
  from assms(1) have s: "src \<noteq> []" by (rule node_at_nonempty)
  from assms(2) have d: "dst \<noteq> []" by (rule node_at_None_nonempty)
  from assms(2,5) have qd: "q \<noteq> dst" by auto
  from assms(3) shutil_move_file [OF assms(1,2)]
  have "fs' = filter (\<lambda>(p, n). p \<noteq> src \<and> p \<noteq> dst) fs @ [(dst, File c)]"
    by (auto split: option.splits node.splits)
  with node_at_moved [OF s d, of fs c q] assms(4,5) qd show ?thesis by simp
qed

lemma partial_copy_keeps:
  assumes "node_at fs dst = None" and "node_at fs q = Some n"
  shows "node_at (partial_copy src dst c fs) q = Some n"
proof -
  from assms have qd: "q \<noteq> dst" by auto
  let ?fs = "filter (\<lambda>(p, n). p \<noteq> dst) fs @ [(dst, File c)]"
  have "node_at ?fs q = Some n"
  proof (cases "q = []")
    case True
    with assms(2) show ?thesis by (simp add: node_at_def)
  next
    case False
    with assms(2) have "map_of fs q = Some n" by (simp add: node_at_def)
    with qd False show ?thesis
      by (simp add: node_at_def map_add_def map_of_filter_keys)
  qed
  with assms show ?thesis by (simp add: partial_copy_def Let_def)
qed

lemma move_keeps:
  assumes "node_at (files w) src = Some (File c)" and "node_at (files w) dst = None"
    and "move src dst w = (r, w')" and "q \<noteq> src" and "node_at (files w) q = Some n"
  shows "node_at (files w') q = Some n"
proof (cases "faults w (clock w)")
  case (Some f)
  show ?thesis
  proof (cases f)
    case (Fails e)
    with Some assms(3,5) show ?thesis by (auto simp: move_def)
  next
    case (FailsPartway e c')
    with Some assms(3) have "files w' = partial_copy src dst c' (files w)"
      by (auto simp: move_def)
    with partial_copy_keeps [OF assms(2,5)] show ?thesis by simp
  qed
next
  case None
  show ?thesis
  proof (cases "shutil_move src dst (files w)")
    case (Inl e)
    with None assms(3,5) show ?thesis by (auto simp: move_def)
  next
    case (Inr fs')
    with None assms(3) have "files w' = fs'" by (auto simp: move_def)
    with shutil_move_keeps [OF assms(1,2) Inr assms(4,5)] show ?thesis by simp
  qed
qed

section \<open>What the Mover and a scan leave in place\<close>

lemma is_file_node_iff: "is_file_node x \<longleftrightarrow> (\<exists>c. x = Some (File c))"
  by (auto simp: is_file_node_def split: option.splits node.splits)

lemma make_unique_fresh:
  "make_unique d n w = (Inr n', w') \<Longrightarrow> node_at (files w) (d @ [n']) = None"
  by (simp add: make_unique_def Let_def make_unique_loop_fresh)

lemma Path_exists_False:
  "Path_exists p w = (Inr False, w') \<Longrightarrow> node_at (files w) p = None"
  by (auto simp: Path_exists_def split: option.splits)

lemma move_and_log_keeps:
  assumes "node_at (files w) (entry_path entry) = Some (File c)"
    and "node_at (files w) (d @ [n]) = None"
    and "move_and_log entry d n w = (r, n', w')"
    and "q \<noteq> entry_path entry" and "node_at (files w) q = Some m"
  shows "node_at (files w') q = Some m"
proof -
  obtain r1 w1 where mv: "move (entry_path entry) (d @ [n]) w = (r1, w1)"
    by (cases "move (entry_path entry) (d @ [n]) w")
  from move_keeps [OF assms(1,2) mv assms(4,5)] have "node_at (files w1) q = Some m" .
  with assms(3) mv show ?thesis
    by (cases r1) (auto simp: move_and_log_def Let_def)
qed

lemma move_file_try_keeps:
  assumes f: "node_at (files w) (entry_path entry) = Some (File c)"
    and t: "move_file_try entry d n w = (r, n', w')"
    and q: "q \<noteq> entry_path entry" and m: "node_at (files w) q = Some m"
  shows "node_at (files w') q = Some m"
proof -
  obtain r1 w1 where mk: "Path_mkdir d w = (r1, w1)" by (cases "Path_mkdir d w")
  obtain r2 w2 where ex: "Path_exists (d @ [n]) w1 = (r2, w2)" by (cases "Path_exists (d @ [n]) w1")
  obtain r3 w3 where mu: "make_unique d n w2 = (r3, w3)" by (cases "make_unique d n w2")
  from Path_mkdir_keeps [OF mk f] have f1: "node_at (files w1) (entry_path entry) = Some (File c)" .
  from Path_mkdir_keeps [OF mk m] have m1: "node_at (files w1) q = Some m" .
  from Path_exists_frame [OF ex] have e2: "files w2 = files w1" by simp
  from make_unique_frame [OF mu] have e3: "files w3 = files w2" by simp
  show ?thesis
  proof (cases r1)
    case (Inl e)
    with t mk m1 show ?thesis by (auto simp: move_file_try_def)
  next
    case mkok: (Inr u)
    show ?thesis
    proof (cases r2)
      case (Inl e)
      with t mk ex mkok m1 e2 show ?thesis by (auto simp: move_file_try_def)
    next
      case exok: (Inr found)
      show ?thesis
      proof (cases found)
        case False
        with t mk ex mkok exok have ml: "move_and_log entry d n w2 = (r, n', w')"
          by (simp add: move_file_try_def)
        from ex exok False have "node_at (files w1) (d @ [n]) = None"
          by (auto dest: Path_exists_False)
        with move_and_log_keeps [OF _ _ ml q, of c m] f1 m1 e2 show ?thesis by simp
      next
        case True
        show ?thesis
        proof (cases r3)
          case (Inl e)
          with t mk ex mu mkok exok True m1 e2 e3 show ?thesis
            by (auto simp: move_file_try_def)
        next
          case (Inr name')
          with t mk ex mu mkok exok True have ml: "move_and_log entry d name' w3 = (r, n', w')"
            by (simp add: move_file_try_def)
          from mu Inr have "node_at (files w2) (d @ [name']) = None"
            by (auto dest: make_unique_fresh)
          with move_and_log_keeps [OF _ _ ml q, of c m] f1 m1 e2 e3 show ?thesis by simp
        qed
      qed
    qed
  qed
qed

lemma move_file_keeps:
  assumes "is_file_node (node_at (files w) (entry_path entry))"
    and "q \<noteq> entry_path entry" and "node_at (files w) q = Some m"
  shows "node_at (files (move_file entry d n w)) q = Some m"
proof -
  from assms(1) obtain c where f: "node_at (files w) (entry_path entry) = Some (File c)"
    by (auto simp: is_file_node_iff)
  obtain r n' w' where t: "move_file_try entry d n w = (r, n', w')"
    by (cases "move_file_try entry d n w")
  from move_file_try_keeps [OF f t assms(2,3)] t show ?thesis
    by (cases r) (simp_all add: move_file_def)
qed

lemma process_file_keeps:
  assumes "is_file_node (node_at (files w) (entry_path entry))"
    and "q \<noteq> entry_path entry" and "node_at (files w) q = Some m"
  shows "node_at (files (process_file cfg entry w)) q = Some m"
  using assms by (auto simp: process_file_def Let_def move_file_keeps split: option.splits)

lemma is_file_result:
  assumes "is_file e w = (r, w')"
  shows "files w' = files w \<and> log_buffer w' = log_buffer w \<and> faults w' = faults w
    \<and> clock w' = Suc (clock w) \<and> (r = Inr (entry_is_file e) \<or> (\<exists>x. r = Inl x))"
  using assms by (auto simp: is_file_def split: option.splits)

lemma process_entries_keeps:
  assumes "distinct (map entry_path es)"
    and "\<And>e. e \<in> set es \<Longrightarrow> entry_is_file e \<Longrightarrow> is_file_node (node_at (files w) (entry_path e))"
    and "node_at (files w) p = Some m"
    and "\<And>e. e \<in> set es \<Longrightarrow> entry_path e = p \<Longrightarrow> entry_is_file e
           \<Longrightarrow> extensions cfg (lower (suffix (entry_name e))) = None"
  shows "node_at (files (snd (process_entries cfg es w))) p = Some m"
  using assms
proof (induction es arbitrary: w)
  case Nil
  then show ?case by simp
next
  case (Cons e es)
  obtain r w1 where isf: "is_file e w = (r, w1)" by (cases "is_file e w")
  from is_file_result [OF isf] have fs1: "files w1 = files w"
    and r: "r = Inr (entry_is_file e) \<or> (\<exists>x. r = Inl x)" by simp_all
  show ?case
  proof (cases r)
    case (Inl x)
    with isf fs1 Cons.prems(3) show ?thesis by simp
  next
    case (Inr b)
    with r have b: "b = entry_is_file e" by auto
    let ?w = "if b then process_file cfg e w1 else w1"
    have "node_at (files (snd (process_entries cfg es ?w))) p = Some m"
    proof (rule Cons.IH)
      show "distinct (map entry_path es)" using Cons.prems(1) by simp
    next
      fix e' assume e': "e' \<in> set es" and fl: "entry_is_file e'"
      from Cons.prems(2) [of e'] e' fl fs1
      have old: "is_file_node (node_at (files w1) (entry_path e'))" by simp
      show "is_file_node (node_at (files ?w) (entry_path e'))"
      proof (cases b)
        case False
        with old show ?thesis by simp
      next
        case True
        from Cons.prems(1) have "entry_path e \<notin> entry_path ` set es" by simp
        with e' have ne: "entry_path e' \<noteq> entry_path e" by (metis imageI)
        from old obtain c where o: "node_at (files w1) (entry_path e') = Some (File c)"
          by (auto simp: is_file_node_iff)
        from Cons.prems(2) [of e] True b fs1
        have "is_file_node (node_at (files w1) (entry_path e))" by simp
        from process_file_keeps [OF this ne o, of cfg] True
        show ?thesis by (simp add: is_file_node_iff)
      qed
    next
      show "node_at (files ?w) p = Some m"
      proof (cases b)
        case False
        with Cons.prems(3) fs1 show ?thesis by simp
      next
        case True
        show ?thesis
        proof (cases "extensions cfg (lower (suffix (entry_name e)))")
          case None
          with True Cons.prems(3) fs1 show ?thesis by (simp add: process_file_def Let_def)
        next
          case (Some dest)
          with Cons.prems(4) [of e] True b have ne: "p \<noteq> entry_path e" by auto
          from Cons.prems(2) [of e] True b fs1
          have f: "is_file_node (node_at (files w1) (entry_path e))" by simp
          from Cons.prems(3) fs1 have "node_at (files w1) p = Some m" by simp
          from process_file_keeps [OF f ne this, of cfg] True
          show ?thesis by simp
        qed
      qed
    next
      fix e' assume "e' \<in> set es" "entry_path e' = p" "entry_is_file e'"
      with Cons.prems(4) [of e'] show "extensions cfg (lower (suffix (entry_name e'))) = None"
        by simp
    qed
    with isf Inr show ?thesis by simp
  qed
qed

section \<open>Files whose extension has no rule\<close>

lemma child_names_distinct: "distinct (child_names d fs)"
  by (simp add: child_names_def)

lemma scandir_entries:
  assumes "scandir d w = (Inr es, w')"
  shows "files w' = files w \<and> log_buffer w' = log_buffer w \<and> faults w' = faults w
    \<and> es = map (make_entry d (files w)) (child_names d (files w))"
  using assms by (auto simp: scandir_def split: option.splits node.splits)

lemma scandir_failure:
  assumes "scandir d w = (Inl e, w')"
  shows "files w' = files w \<and> log_buffer w' = log_buffer w \<and> faults w' = faults w"
  using assms by (auto simp: scandir_def split: option.splits node.splits)

lemma make_entry_simps [simp]:
  "entry_name (make_entry d fs nm) = nm"
  "entry_path (make_entry d fs nm) = d @ [nm]"
  "entry_is_file (make_entry d fs nm) = is_file_node (node_at fs (d @ [nm]))"
  by (simp_all add: make_entry_def)

lemma distinct_entry_paths:
  "distinct nms \<Longrightarrow> distinct (map entry_path (map (make_entry d fs) nms))"
  by (simp add: distinct_map comp_def inj_on_def)

text \<open>
  Claim C7. A regular file of the source directory whose extension is not a key of the
  rule table is left alone: processing it returns the state unchanged (nothing moved,
  no log entry, and \<open>process_file\<close> is total, so no error), and after any scan, whatever
  the other entries and whatever fails on the way, it is still at its path with its
  content.
\<close>

theorem unmatched_file_is_left_alone:
  assumes "extensions cfg (lower (suffix name)) = None"
    and "node_at (files w) (source_dir cfg @ [name]) = Some (File c)"
  shows "(entry_name entry = name \<longrightarrow> process_file cfg entry w = w)
    \<and> node_at (files (snd (on_modified cfg is_directory w))) (source_dir cfg @ [name])
        = Some (File c)"
proof
  from assms(1) show "entry_name entry = name \<longrightarrow> process_file cfg entry w = w"
    by (simp add: process_file_def Let_def)
next
  let ?p = "source_dir cfg @ [name]"
  show "node_at (files (snd (on_modified cfg is_directory w))) ?p = Some (File c)"
  proof (cases is_directory)
    case False
    with assms(2) show ?thesis by (simp add: on_modified_def)
  next
    case True
    obtain r w' where s: "scandir (source_dir cfg) w = (r, w')"
      by (cases "scandir (source_dir cfg) w")
    show ?thesis
    proof (cases r)
      case (Inl e)
      with s scandir_failure [of "source_dir cfg" w e w'] assms(2) True show ?thesis
        by (simp add: on_modified_def)
    next
      case (Inr es)
      with s scandir_entries [of "source_dir cfg" w es w']
      have fs: "files w' = files w"
        and es: "es = map (make_entry (source_dir cfg) (files w)) (child_names (source_dir cfg) (files w))"
        by simp_all
      have "node_at (files (snd (process_entries cfg es w'))) ?p = Some (File c)"
      proof (rule process_entries_keeps)
        show "distinct (map entry_path es)"
          unfolding es by (rule distinct_entry_paths [OF child_names_distinct])
      next
        fix e assume "e \<in> set es" "entry_is_file e"
        then show "is_file_node (node_at (files w') (entry_path e))"
          by (auto simp: es fs)
      next
        show "node_at (files w') ?p = Some (File c)" using assms(2) fs by simp
      next
        fix e assume "e \<in> set es" "entry_path e = ?p"
        then have "entry_name e = name" by (auto simp: es)
        with assms(1) show "extensions cfg (lower (suffix (entry_name e))) = None" by simp
      qed
      with s Inr True show ?thesis by (simp add: on_modified_def)
    qed
  qed
qed

theorem unmatched_file_is_left_alone_witness:
  "process_file example_config (example_entry ''README'') example_world = example_world
   \<and> node_at (files (snd (on_modified example_config True example_world))) [''src'', ''README'']
        = Some (File ''r'')
   \<and> node_at (files (snd (on_modified example_config True example_world))) [''dest'', ''a(1).png'']
        = Some (File ''new'')"
proof -
  have h1: "extensions example_config (lower (suffix ''README'')) = None"
    by code_simp
  have h2: "node_at (files example_world) (source_dir example_config @ [''README'']) = Some (File ''r'')"
    by code_simp
  have n: "entry_name (example_entry ''README'') = ''README''"
    by (simp add: example_entry_def)
  have s: "source_dir example_config @ [''README''] = [''src'', ''README'']"
    by (simp add: example_config_def)
  have m: "node_at (files (snd (on_modified example_config True example_world))) [''dest'', ''a(1).png'']
        = Some (File ''new'')"
    by code_simp
  from unmatched_file_is_left_alone [OF h1 h2, of "example_entry ''README''" True] n s m
  show ?thesis by simp
qed

section \<open>Collision resolution\<close>

lemma stem_suffix_concat: "stem x @ suffix x = path_name x"
  by (simp add: stem_def suffix_def Let_def)

lemma candidate_not_name:
  assumes "CHR ''/'' \<notin> set x"
  shows "candidate (stem x) (suffix x) k \<noteq> x"
proof (cases "x = [] \<or> x = ''.''")
  case True
  with assms have "path_name x = []" by (simp add: path_name_component)
  with stem_suffix_concat [of x] have "stem x = []" by simp
  then have "hd (candidate (stem x) (suffix x) k) = CHR ''(''" by (simp add: candidate_def)
  moreover have "candidate (stem x) (suffix x) k \<noteq> []" by (simp add: candidate_def)
  ultimately show ?thesis using True by auto
next
  case False
  with assms have "path_name x = x" by (simp add: path_name_component)
  with stem_suffix_concat [of x] have "length (stem x) + length (suffix x) = length x"
    by (metis length_append)
  then have "length (candidate (stem x) (suffix x) k) > length x"
    by (simp add: candidate_def)
  then show ?thesis by auto
qed

lemma make_unique_first_free:
  assumes "\<And>t. faults w t = None"
    and "1 \<le> N"
    and "\<And>j. 1 \<le> j \<Longrightarrow> j < N \<Longrightarrow> node_at (files w) (d @ [candidate (stem x) (suffix x) j]) \<noteq> None"
    and "node_at (files w) (d @ [candidate (stem x) (suffix x) N]) = None"
  shows "fst (make_unique d x w) = Inr (candidate (stem x) (suffix x) N)"
  using make_unique_loop_first_free [of w 1 N d "stem x" "suffix x"] assms
  by (simp add: make_unique_def Let_def)

lemma final_name_collision:
  assumes ff: "\<And>t. faults w t = None"
    and dir: "node_at (files w) d = Some Dir"
    and occ: "node_at (files w) (d @ [x]) \<noteq> None"
    and mu: "\<And>w'. files w' = files w \<Longrightarrow> faults w' = faults w \<Longrightarrow> fst (make_unique d x w') = Inr n"
  shows "final_name entry d x w = n"
proof -
  from ff dir have mk: "Path_mkdir d w = (Inr (), tick w)"
    by (simp add: Path_mkdir_existing_dir)
  from ff occ have ex: "Path_exists (d @ [x]) (tick w) = (Inr True, tick (tick w))"
    by (simp add: Path_exists_def)
  from mu [of "tick (tick w)"] have "fst (make_unique d x (tick (tick w))) = Inr n" by simp
  then obtain w3 where "make_unique d x (tick (tick w)) = (Inr n, w3)"
    by (cases "make_unique d x (tick (tick w))") auto
  with mk ex show ?thesis by (simp add: final_name_def)
qed

text \<open>
  Claim C1. Let the occupants of the destination directory be exactly \<open>x\<close> and the
  candidates \<open>stem(k)ext\<close> for \<open>1 \<le> k < N\<close>, where \<open>stem\<close> and \<open>ext\<close> split the file name
  \<open>x\<close>, and let no file system operation fail. Then the resolver returns \<open>stem(N)ext\<close>, the
  first candidate from counter 1 on that does not exist; and when the destination is an
  existing directory, the Mover, finding \<open>x\<close> in it, takes the collision path and continues
  with exactly that name.
\<close>

theorem collision_resolver_returns_first_free:
  assumes "\<And>t. faults w t = None"
    and "CHR ''/'' \<notin> set x"
    and "1 \<le> N"
    and "\<And>n. (node_at (files w) (dest_dir @ [n]) \<noteq> None) =
           (n = x \<or> (\<exists>k. 1 \<le> k \<and> k < N \<and> n = candidate (stem x) (suffix x) k))"
  shows "fst (make_unique dest_dir x w) = Inr (stem x @ ''('' @ str_nat N @ '')'' @ suffix x)
    \<and> (node_at (files w) dest_dir = Some Dir \<longrightarrow>
         fst (snd (move_file_try entry dest_dir x w)) = stem x @ ''('' @ str_nat N @ '')'' @ suffix x)"
proof -
  let ?c = "candidate (stem x) (suffix x)"
  have taken: "node_at (files w) (dest_dir @ [?c j]) \<noteq> None" if "1 \<le> j" "j < N" for j
    using assms(4) [of "?c j"] that by auto
  have free: "node_at (files w) (dest_dir @ [?c N]) = None"
  proof -
    have "?c N \<noteq> x" by (rule candidate_not_name [OF assms(2)])
    moreover have "\<not> (\<exists>k. 1 \<le> k \<and> k < N \<and> ?c N = ?c k)"
      by (auto dest: candidate_inj)
    ultimately show ?thesis using assms(4) [of "?c N"] by blast
  qed
  have res: "fst (make_unique dest_dir x w') = Inr (?c N)"
    if "files w' = files w" "faults w' = faults w" for w'
    using make_unique_first_free [of w' N dest_dir x] that assms(1,3) taken free by simp
  have occ: "node_at (files w) (dest_dir @ [x]) \<noteq> None"
    using assms(4) [of x] by simp
  have "final_name entry dest_dir x w = ?c N" if "node_at (files w) dest_dir = Some Dir"
    by (rule final_name_collision [OF assms(1) that occ res])
  with res [of w] show ?thesis
    by (simp add: move_file_try_name candidate_def)
qed

theorem collision_resolver_returns_first_free_witness:
  "fst (make_unique [''dest''] ''a.png'' crowded_world) = Inr ''a(2).png''
   \<and> fst (snd (move_file_try (example_entry ''a.png'') [''dest''] ''a.png'' crowded_world))
       = ''a(2).png''"
proof -
  have h1: "\<And>t. faults crowded_world t = None"
    by (simp add: crowded_world_def example_world_def)
  have h2: "CHR ''/'' \<notin> set ''a.png''" by simp
  have h3: "(1::nat) \<le> 2" by simp
  have c1: "candidate (stem ''a.png'') (suffix ''a.png'') 1 = ''a(1).png''" by code_simp
  have ex: "(\<exists>k. 1 \<le> k \<and> k < 2 \<and> n = candidate (stem ''a.png'') (suffix ''a.png'') k)
      = (n = ''a(1).png'')" for n
  proof
    assume "\<exists>k. 1 \<le> k \<and> k < 2 \<and> n = candidate (stem ''a.png'') (suffix ''a.png'') k"
    then obtain k :: nat where "1 \<le> k" "k < 2"
      and n: "n = candidate (stem ''a.png'') (suffix ''a.png'') k" by blast
    then have "k = 1" by simp
    with n c1 show "n = ''a(1).png''" by simp
  next
    assume "n = ''a(1).png''"
    with c1 have "1 \<le> (1::nat) \<and> (1::nat) < 2 \<and> n = candidate (stem ''a.png'') (suffix ''a.png'') 1"
      by simp
    then show "\<exists>k. 1 \<le> k \<and> k < 2 \<and> n = candidate (stem ''a.png'') (suffix ''a.png'') k"
      by (rule exI)
  qed
  have h4: "(node_at (files crowded_world) ([''dest''] @ [n]) \<noteq> None) =
      (n = ''a.png'' \<or> (\<exists>k. 1 \<le> k \<and> k < 2 \<and> n = candidate (stem ''a.png'') (suffix ''a.png'') k))"
    for n
    unfolding ex by (auto simp: node_at_def crowded_world_def example_world_def example_files_def)
  have d: "node_at (files crowded_world) [''dest''] = Some Dir" by code_simp
  have s: "stem ''a.png'' @ ''('' @ str_nat 2 @ '')'' @ suffix ''a.png'' = ''a(2).png''"
    by code_simp
  from collision_resolver_returns_first_free [OF h1 h2 h3 h4, of "example_entry ''a.png''"] d
  show ?thesis by (simp only: s)
qed

section \<open>Scanning twice\<close>

lemma node_at_append_dir:
  "node_at fs d = None \<Longrightarrow>
     is_file_node (node_at (fs @ [(d, Dir)]) q) = is_file_node (node_at fs q)"
  by (auto simp: node_at_def map_add_def is_file_node_def split: option.splits)

lemma os_mkdir_is_file:
  "os_mkdir d fs = Inr fs' \<Longrightarrow> is_file_node (node_at fs' q) = is_file_node (node_at fs q)"
  by (auto simp: os_mkdir_def node_at_append_dir split: if_splits option.splits node.splits)

lemma mkdir_exist_ok_is_file:
  "mkdir_exist_ok d fs = (r, fs') \<Longrightarrow>
     is_file_node (node_at fs' q) = is_file_node (node_at fs q)"
  by (auto simp: mkdir_exist_ok_def os_mkdir_is_file split: sum.splits exn.splits if_splits)

lemma mkdir_parents_is_file:
  "mkdir_parents d fs = (r, fs') \<Longrightarrow>
     is_file_node (node_at fs' q) = is_file_node (node_at fs q)"
proof (induction d fs arbitrary: r fs' rule: mkdir_parents.induct)
  case (1 d fs)
  show ?case
  proof (cases "os_mkdir d fs")
    case (Inr fs1)
    with "1.prems" show ?thesis
      by (simp add: mkdir_parents.simps [of d fs] os_mkdir_is_file)
  next
    case (Inl e)
    show ?thesis
    proof (cases "(\<exists>p. e = FileNotFoundError p) \<and> d \<noteq> []")
      case False
      with Inl "1.prems" show ?thesis
        by (auto simp: mkdir_parents.simps [of d fs] split: exn.splits if_splits)
    next
      case True
      obtain r1 fs1 where p: "mkdir_parents (butlast d) fs = (r1, fs1)"
        by (cases "mkdir_parents (butlast d) fs")
      from True Inl obtain p0 where a: "os_mkdir d fs = Inl (FileNotFoundError p0)"
        and b: "d \<noteq> []" by auto
      from "1.IH" [OF a refl b p]
      have k1: "is_file_node (node_at fs1 q) = is_file_node (node_at fs q)" .
      show ?thesis
      proof (cases r1)
        case (Inl e1)
        with a b p "1.prems"(1) k1 show ?thesis
          by (simp add: mkdir_parents.simps [of d fs])
      next
        case (Inr u)
        with a b p "1.prems"(1) have "mkdir_exist_ok d fs1 = (r, fs')"
          by (simp add: mkdir_parents.simps [of d fs])
        from mkdir_exist_ok_is_file [OF this] k1 show ?thesis by simp
      qed
    qed
  qed
qed

lemma Path_mkdir_is_file:
  "Path_mkdir d w = (r, w') \<Longrightarrow>
     is_file_node (node_at (files w') q) = is_file_node (node_at (files w) q)"
  by (auto simp: Path_mkdir_def mkdir_parents_is_file split: option.splits prod.splits)

lemma move_success_effect:
  assumes src: "node_at (files w) src = Some (File c)"
    and free: "node_at (files w) dst = None"
    and mv: "move src dst w = (Inr u, w')"
  shows "node_at (files w') q =
     (if q = dst then Some (File c) else if q = src then None else node_at (files w) q)"
proof -
  from mv obtain fs' where sm: "shutil_move src dst (files w) = Inr fs'" and f: "files w' = fs'"
    by (auto simp: move_def split: option.splits sum.splits fault.splits)
  from sm shutil_move_file [OF src free]
  have "fs' = filter (\<lambda>(p, n). p \<noteq> src \<and> p \<noteq> dst) (files w) @ [(dst, File c)]"
    by (auto split: option.splits node.splits)
  with node_at_moved [OF node_at_nonempty [OF src] node_at_None_nonempty [OF free], of "files w" c q] f
  show ?thesis by simp
qed

lemma move_and_log_success_effect:
  assumes src: "node_at (files w) (entry_path entry) = Some (File c)"
    and free: "node_at (files w) (d @ [n]) = None"
    and ml: "move_and_log entry d n w = (Inr u, n', w')"
  shows "n' = n \<and> node_at (files w') q =
     (if q = d @ [n] then Some (File c)
      else if q = entry_path entry then None else node_at (files w) q)"
proof -
  obtain r1 w1 where mv: "move (entry_path entry) (d @ [n]) w = (r1, w1)"
    by (cases "move (entry_path entry) (d @ [n]) w")
  with ml have r1: "r1 = Inr ()" and n: "n' = n" and f: "files w' = files w1"
    by (auto simp: move_and_log_def Let_def split: sum.splits)
  from mv r1 have "move (entry_path entry) (d @ [n]) w = (Inr (), w1)" by simp
  from move_success_effect [OF src free this, of q] n f show ?thesis by simp
qed

lemma move_file_try_success_effect:
  assumes src: "node_at (files w) (entry_path entry) = Some (File c)"
    and t: "move_file_try entry d n w = (Inr u, n', w')"
  shows "is_file_node (node_at (files w') q) =
     (if q = d @ [n'] then True
      else if q = entry_path entry then False else is_file_node (node_at (files w) q))"
proof -
  obtain r1 w1 where mk: "Path_mkdir d w = (r1, w1)" by (cases "Path_mkdir d w")
  obtain r2 w2 where ex: "Path_exists (d @ [n]) w1 = (r2, w2)" by (cases "Path_exists (d @ [n]) w1")
  obtain r3 w3 where mu: "make_unique d n w2 = (r3, w3)" by (cases "make_unique d n w2")
  from Path_mkdir_keeps [OF mk src] have s1: "node_at (files w1) (entry_path entry) = Some (File c)" .
  from Path_mkdir_is_file [OF mk]
  have k1: "is_file_node (node_at (files w1) q) = is_file_node (node_at (files w) q)" .
  from Path_exists_frame [OF ex] have e2: "files w2 = files w1" by simp
  from make_unique_frame [OF mu] have e3: "files w3 = files w2" by simp
  from t mk obtain u1 where r1: "r1 = Inr u1"
    by (cases r1) (auto simp: move_file_try_def)
  from t mk r1 ex obtain found where r2: "r2 = Inr found"
    by (cases r2) (auto simp: move_file_try_def)
  show ?thesis
  proof (cases found)
    case False
    with t mk ex r1 r2 have ml: "move_and_log entry d n w2 = (Inr u, n', w')"
      by (simp add: move_file_try_def)
    from ex r2 False have free: "node_at (files w2) (d @ [n]) = None"
      by (auto simp: e2 dest: Path_exists_False)
    from s1 e2 have s2: "node_at (files w2) (entry_path entry) = Some (File c)" by simp
    from move_and_log_success_effect [OF s2 free ml, of q] k1 e2 show ?thesis
      by (auto simp: is_file_node_def)
  next
    case True
    with t mk ex mu r1 r2 obtain name' where r3: "r3 = Inr name'"
      by (cases r3) (auto simp: move_file_try_def)
    with t mk ex mu r1 r2 True have ml: "move_and_log entry d name' w3 = (Inr u, n', w')"
      by (simp add: move_file_try_def)
    from mu r3 have free: "node_at (files w3) (d @ [name']) = None"
      by (auto simp: e3 dest: make_unique_fresh)
    from s1 e2 e3 have s3: "node_at (files w3) (entry_path entry) = Some (File c)" by simp
    from move_and_log_success_effect [OF s3 free ml, of q] k1 e2 e3 show ?thesis
      by (auto simp: is_file_node_def)
  qed
qed

lemma process_entries_noop:
  assumes "\<And>e. e \<in> set es \<Longrightarrow> entry_is_file e \<Longrightarrow> extensions cfg (lower (suffix (entry_name e))) = None"
  shows "files (snd (process_entries cfg es w)) = files w
    \<and> log_buffer (snd (process_entries cfg es w)) = log_buffer w"
  using assms
proof (induction es arbitrary: w)
  case Nil
  show ?case by simp
next
  case (Cons e es)
  obtain r w1 where isf: "is_file e w = (r, w1)" by (cases "is_file e w")
  from is_file_result [OF isf] have same: "files w1 = files w" "log_buffer w1 = log_buffer w"
    and r: "r = Inr (entry_is_file e) \<or> (\<exists>x. r = Inl x)" by simp_all
  show ?case
  proof (cases r)
    case (Inl x)
    with isf same show ?thesis by simp
  next
    case (Inr b)
    with r have b: "b = entry_is_file e" by auto
    from Cons.prems [of e] b have "(if b then process_file cfg e w1 else w1) = w1"
      by (simp add: process_file_def Let_def)
    with isf Inr Cons.IH [of w1] Cons.prems same show ?thesis by simp
  qed
qed

lemma child_names_cover:
  assumes "is_file_node (node_at fs (D @ [nm]))"
  shows "nm \<in> set (child_names D fs)"
proof -
  from assms obtain c where "node_at fs (D @ [nm]) = Some (File c)"
    by (auto simp: is_file_node_iff)
  then have "(D @ [nm], File c) \<in> set fs"
    by (auto simp: node_at_def dest: map_of_SomeD)
  then have "(D @ [nm], File c) \<in> set (filter (\<lambda>(p, n). p \<noteq> [] \<and> butlast p = D) fs)"
    by simp
  then have "(last \<circ> fst) (D @ [nm], File c)
      \<in> (last \<circ> fst) ` set (filter (\<lambda>(p, n). p \<noteq> [] \<and> butlast p = D) fs)"
    by (rule imageI)
  then show ?thesis by (simp add: child_names_def)
qed

lemma process_entries_clears:
  assumes ms: "moves_succeed cfg es w"
    and nd: "\<And>ext. extensions cfg ext \<noteq> Some D"
    and dist: "distinct (map entry_name es)"
    and ents: "\<And>e. e \<in> set es \<Longrightarrow> entry_path e = D @ [entry_name e]
                  \<and> entry_is_file e = is_file_node (node_at (files w) (entry_path e))"
    and cover: "\<And>nm. is_file_node (node_at (files w) (D @ [nm])) \<Longrightarrow>
                  extensions cfg (lower (suffix nm)) \<noteq> None \<Longrightarrow> nm \<in> entry_name ` set es"
  shows "is_file_node (node_at (files (snd (process_entries cfg es w))) (D @ [nm]))
    \<Longrightarrow> extensions cfg (lower (suffix nm)) = None"
  using assms
proof (induction es arbitrary: w)
  case Nil
  show ?case
  proof (rule ccontr)
    assume "extensions cfg (lower (suffix nm)) \<noteq> None"
    with Nil.prems(1) Nil.prems(6) [of nm] show False by simp
  qed
next
  case (Cons e es)
  let ?ext = "lower (suffix (entry_name e))"
  obtain r w1 where isf: "is_file e w = (r, w1)" by (cases "is_file e w")
  from is_file_result [OF isf] have fs1: "files w1 = files w"
    and r: "r = Inr (entry_is_file e) \<or> (\<exists>x. r = Inl x)" by simp_all
  from Cons.prems(2) isf r have rb: "r = Inr (entry_is_file e)" by auto
  from Cons.prems(5) [of e] have pe: "entry_path e = D @ [entry_name e]"
    and fe: "entry_is_file e = is_file_node (node_at (files w) (entry_path e))" by simp_all
  from Cons.prems(4) have dist': "distinct (map entry_name es)"
    and fresh: "entry_name e \<notin> entry_name ` set es" by simp_all
  show ?case
  proof (cases "entry_is_file e \<and> extensions cfg ?ext \<noteq> None")
    case False
    then have same: "(if entry_is_file e then process_file cfg e w1 else w1) = w1"
      by (auto simp: process_file_def Let_def)
    from Cons.prems(2) isf rb False have ms': "moves_succeed cfg es w1"
      by (auto split: option.splits)
    have "extensions cfg (lower (suffix nm)) = None"
    proof (rule Cons.IH [OF _ ms' Cons.prems(3) dist'])
      from Cons.prems(1) isf rb same
      show "is_file_node (node_at (files (snd (process_entries cfg es w1))) (D @ [nm]))"
        by simp
    next
      fix e' assume "e' \<in> set es"
      with Cons.prems(5) [of e'] fs1
      show "entry_path e' = D @ [entry_name e']
          \<and> entry_is_file e' = is_file_node (node_at (files w1) (entry_path e'))" by simp
    next
      fix n assume f: "is_file_node (node_at (files w1) (D @ [n]))"
        and rl: "extensions cfg (lower (suffix n)) \<noteq> None"
      from f fs1 have f0: "is_file_node (node_at (files w) (D @ [n]))" by simp
      from Cons.prems(6) [OF f0 rl] have "n = entry_name e \<or> n \<in> entry_name ` set es" by auto
      moreover have "n \<noteq> entry_name e"
      proof
        assume "n = entry_name e"
        with f0 rl pe fe have "entry_is_file e \<and> extensions cfg ?ext \<noteq> None" by simp
        with False show False by simp
      qed
      ultimately show "n \<in> entry_name ` set es" by simp
    qed
    then show ?thesis .
  next
    case True
    then obtain dest where rule: "extensions cfg ?ext = Some dest" by auto
    from True fe fs1 obtain c where src: "node_at (files w1) (entry_path e) = Some (File c)"
      by (auto simp: is_file_node_iff)
    from Cons.prems(3) [of ?ext] rule have ndest: "dest \<noteq> D" by auto
    obtain rt n' w2 where t: "move_file_try e dest (entry_name e) w1 = (rt, n', w2)"
      by (cases "move_file_try e dest (entry_name e) w1")
    from Cons.prems(2) isf rb True rule t obtain u where rt: "rt = Inr u"
      and ms': "moves_succeed cfg es w2"
      by (cases rt) auto
    from t rt have step: "(if entry_is_file e then process_file cfg e w1 else w1) = w2"
      using True rule by (simp add: process_file_def Let_def move_file_def)
    from t rt have t': "move_file_try e dest (entry_name e) w1 = (Inr u, n', w2)" by simp
    have child: "is_file_node (node_at (files w2) (D @ [n])) =
        (if n = entry_name e then False else is_file_node (node_at (files w) (D @ [n])))" for n
      using move_file_try_success_effect [OF src t', of "D @ [n]"] ndest pe fs1 by auto
    have "extensions cfg (lower (suffix nm)) = None"
    proof (rule Cons.IH [OF _ ms' Cons.prems(3) dist'])
      from Cons.prems(1) isf rb step
      show "is_file_node (node_at (files (snd (process_entries cfg es w2))) (D @ [nm]))"
        by simp
    next
      fix e' assume e': "e' \<in> set es"
      from Cons.prems(5) [of e'] e' have pe': "entry_path e' = D @ [entry_name e']"
        and fe': "entry_is_file e' = is_file_node (node_at (files w) (entry_path e'))" by simp_all
      from e' fresh have "entry_name e' \<noteq> entry_name e" by (metis imageI)
      with child [of "entry_name e'"] pe' fe'
      show "entry_path e' = D @ [entry_name e']
          \<and> entry_is_file e' = is_file_node (node_at (files w2) (entry_path e'))" by simp
    next
      fix n assume f: "is_file_node (node_at (files w2) (D @ [n]))"
        and rl: "extensions cfg (lower (suffix n)) \<noteq> None"
      from f child [of n] have ne: "n \<noteq> entry_name e" by auto
      with f child [of n] have "is_file_node (node_at (files w) (D @ [n]))" by simp
      from Cons.prems(6) [OF this rl] ne show "n \<in> entry_name ` set es" by auto
    qed
    then show ?thesis .
  qed
qed

text \<open>
  Claim C9 (amended). When the first scan runs without a failure (no exception ends it
  and every move it attempts succeeds) and no rule has the source directory itself as
  its destination, a second scan run right after it moves nothing and appends nothing
  to the Activity Log, whatever fails during that second scan: the first scan has moved
  every matching regular file out of the source directory.
\<close>

theorem second_scan_changes_nothing:
  assumes "scan_without_failure cfg w"
    and "\<And>ext. extensions cfg ext \<noteq> Some (source_dir cfg)"
  shows "files (snd (on_modified cfg True (snd (on_modified cfg True w))))
       = files (snd (on_modified cfg True w))
    \<and> log_buffer (snd (on_modified cfg True (snd (on_modified cfg True w))))
       = log_buffer (snd (on_modified cfg True w))"
proof -
  let ?D = "source_dir cfg"
  let ?w1 = "snd (on_modified cfg True w)"
  obtain r es0 where sc0: "scandir ?D w = (r, es0)" by (cases "scandir ?D w")
  with assms(1) obtain es w' where sc: "scandir ?D w = (Inr es, w')"
    and ms: "moves_succeed cfg es w'"
    by (cases r) (auto simp: scan_without_failure_def)
  from scandir_entries [OF sc] have fs: "files w' = files w"
    and es: "es = map (make_entry ?D (files w)) (child_names ?D (files w))" by simp_all
  from sc have w1: "?w1 = snd (process_entries cfg es w')"
    by (simp add: on_modified_def)
  have clear: "extensions cfg (lower (suffix nm)) = None"
    if "is_file_node (node_at (files ?w1) (?D @ [nm]))" for nm
  proof (rule process_entries_clears [OF ms assms(2)])
    show "distinct (map entry_name es)"
      using child_names_distinct [of ?D "files w"] by (simp add: es comp_def)
  next
    fix e assume "e \<in> set es"
    then show "entry_path e = ?D @ [entry_name e]
        \<and> entry_is_file e = is_file_node (node_at (files w') (entry_path e))"
      by (auto simp: es fs)
  next
    fix n assume "is_file_node (node_at (files w') (?D @ [n]))"
    then have "n \<in> set (child_names ?D (files w))"
      by (simp add: fs child_names_cover)
    then have "entry_name (make_entry ?D (files w) n) \<in> entry_name ` set es"
      unfolding es by (intro imageI) simp
    then show "n \<in> entry_name ` set es" by simp
  next
    from that show "is_file_node (node_at (files (snd (process_entries cfg es w'))) (?D @ [nm]))"
      by (simp add: w1)
  qed
  obtain r2 w2 where sc2: "scandir ?D ?w1 = (r2, w2)" by (cases "scandir ?D ?w1")
  show ?thesis
  proof (cases r2)
    case (Inl e)
    with sc2 scandir_failure [of ?D ?w1 e w2] show ?thesis
      by (simp add: on_modified_def)
  next
    case (Inr es2)
    with sc2 scandir_entries [of ?D ?w1 es2 w2]
    have f2: "files w2 = files ?w1" and l2: "log_buffer w2 = log_buffer ?w1"
      and es2: "es2 = map (make_entry ?D (files ?w1)) (child_names ?D (files ?w1))"
      by simp_all
    have "files (snd (process_entries cfg es2 w2)) = files w2
      \<and> log_buffer (snd (process_entries cfg es2 w2)) = log_buffer w2"
    proof (rule process_entries_noop)
      fix e assume "e \<in> set es2" "entry_is_file e"
      then obtain n where "entry_name e = n"
        and "is_file_node (node_at (files ?w1) (?D @ [n]))" by (auto simp: es2)
      with clear [of n] show "extensions cfg (lower (suffix (entry_name e))) = None" by simp
    qed
    with sc2 Inr f2 l2 show ?thesis by (simp add: on_modified_def)
  qed
qed

theorem second_scan_changes_nothing_witness:
  "log_buffer (snd (on_modified (example_config\<lparr>extensions := [''.png'' \<mapsto> [''new'', ''images'']]\<rparr>)
        True example_world))
     = [Moved ''a.png'' [''new'', ''images'']]
   \<and> log_buffer (snd (on_modified (example_config\<lparr>extensions := [''.png'' \<mapsto> [''new'', ''images'']]\<rparr>)
        True
        (snd (on_modified (example_config\<lparr>extensions := [''.png'' \<mapsto> [''new'', ''images'']]\<rparr>)
           True example_world))))
     = [Moved ''a.png'' [''new'', ''images'']]
   \<and> files (snd (on_modified (example_config\<lparr>extensions := [''.png'' \<mapsto> [''new'', ''images'']]\<rparr>)
        True
        (snd (on_modified (example_config\<lparr>extensions := [''.png'' \<mapsto> [''new'', ''images'']]\<rparr>)
           True example_world))))
     = files (snd (on_modified (example_config\<lparr>extensions := [''.png'' \<mapsto> [''new'', ''images'']]\<rparr>)
        True example_world))"
proof -
  let ?cfg = "example_config\<lparr>extensions := [''.png'' \<mapsto> [''new'', ''images'']]\<rparr>"
  have h1: "scan_without_failure ?cfg example_world" by code_simp
  have h2: "extensions ?cfg ext \<noteq> Some (source_dir ?cfg)" for ext
    by (simp add: example_config_def)
  have l: "log_buffer (snd (on_modified ?cfg True example_world))
     = [Moved ''a.png'' [''new'', ''images'']]"
    by code_simp
  from second_scan_changes_nothing [OF h1 h2] l show ?thesis by simp
qed

text \<open>
  The claim as written fails in two ways. When a move fails (here the destination of the
  \<open>.png\<close> rule is an existing regular file, so the destination directory cannot be
  created) the file stays in the source directory, and the second scan tries again and
  appends a second failure entry. When a rule has the source directory as its
  destination, the first scan renames \<open>a.png\<close> to \<open>a(1).png\<close> inside it, and the second
  scan moves that file again, to \<open>a(1)(1).png\<close>.
\<close>

theorem second_scan_repeats_counterexample:
  "log_buffer (snd (on_modified (example_config\<lparr>extensions := [''.png'' \<mapsto> [''src'', ''README'']]\<rparr>)
        True example_world))
     = [ErrorMoving ''a.png'' (FileExistsError [''src'', ''README''])]
   \<and> log_buffer (snd (on_modified (example_config\<lparr>extensions := [''.png'' \<mapsto> [''src'', ''README'']]\<rparr>)
        True
        (snd (on_modified (example_config\<lparr>extensions := [''.png'' \<mapsto> [''src'', ''README'']]\<rparr>)
           True example_world))))
     = [ErrorMoving ''a.png'' (FileExistsError [''src'', ''README'']),
        ErrorMoving ''a.png'' (FileExistsError [''src'', ''README''])]
   \<and> log_buffer (snd (on_modified (example_config\<lparr>extensions := [''.png'' \<mapsto> [''src'']]\<rparr>)
        True example_world))
     = [Moved ''a(1).png'' [''src'']]
   \<and> log_buffer (snd (on_modified (example_config\<lparr>extensions := [''.png'' \<mapsto> [''src'']]\<rparr>)
        True
        (snd (on_modified (example_config\<lparr>extensions := [''.png'' \<mapsto> [''src'']]\<rparr>)
           True example_world))))
     = [Moved ''a(1).png'' [''src''], Moved ''a(1)(1).png'' [''src'']]"
  by code_simp

end
